theory Spec2Isabelle
  imports Main
begin

section \<open>JavaScript values used by the storage component\<close>

text \<open>
  Strings are lists of characters (code units below 256), byte buffers are lists
  of 8-bit characters. A JavaScript number is a double; the code modelled here
  computes with integral values only (sizes, offsets, status codes), so a number
  is an integer that a double can hold, an infinity or \<open>NaN\<close>.
\<close>

type_synonym bytes = "char list"

definition backslash :: char where
  "backslash = CHR 0x5C"

datatype jsnum = Num int | PosInf | NegInf | NaN

fun truthy_num :: "jsnum \<Rightarrow> bool" where
  "truthy_num (Num n) = (n \<noteq> 0)"
| "truthy_num NaN = False"
| "truthy_num _ = True"

text \<open>The number of binary digits of a positive integer.\<close>

function bitlen :: "int \<Rightarrow> nat" where
  "bitlen n = (if n \<le> 0 then 0 else Suc (bitlen (n div 2)))"
  by pat_completeness auto
termination
  by (relation "measure nat") auto

declare bitlen.simps [simp del]

text \<open>
  The double nearest to an integer: exact below \<open>2^53\<close>, otherwise rounded to 53
  binary digits (a tie goes to the even one), and an infinity from \<open>2^1024\<close> on.
\<close>

definition to_double :: "int \<Rightarrow> jsnum" where
  "to_double n =
     (let a = \<bar>n\<bar> in
      if a < 2 ^ 53 then Num n
      else
        let e = bitlen a - 53;
            q = a div 2 ^ e;
            r = a mod 2 ^ e;
            half = 2 ^ (e - 1);
            q' = (if r > half \<or> (r = half \<and> odd q) then q + 1 else q);
            m = q' * 2 ^ e
        in if m \<ge> 2 ^ 1024 then (if n < 0 then NegInf else PosInf)
           else Num (if n < 0 then - m else m))"

fun num_neg :: "jsnum \<Rightarrow> jsnum" where
  "num_neg (Num a) = Num (- a)"
| "num_neg PosInf = NegInf"
| "num_neg NegInf = PosInf"
| "num_neg NaN = NaN"

fun num_add :: "jsnum \<Rightarrow> jsnum \<Rightarrow> jsnum" where
  "num_add (Num a) (Num b) = to_double (a + b)"
| "num_add NaN _ = NaN"
| "num_add _ NaN = NaN"
| "num_add PosInf NegInf = NaN"
| "num_add NegInf PosInf = NaN"
| "num_add PosInf _ = PosInf"
| "num_add NegInf _ = NegInf"
| "num_add _ PosInf = PosInf"
| "num_add _ NegInf = NegInf"

definition num_sub :: "jsnum \<Rightarrow> jsnum \<Rightarrow> jsnum" where
  "num_sub a b = num_add a (num_neg b)"

section \<open>The name validator of the filesystem provider\<close>

text \<open>
  \<^verbatim>\<open>const namePattern = new RegExp('[^' + path.sep + '/]+');\<close>
  The pattern is built from the separator of the host platform: \<open>/\<close> on POSIX,
  a backslash on Windows.
\<close>

datatype platform = Posix | Win32

fun path_sep :: "platform \<Rightarrow> char" where
  "path_sep Posix = CHR ''/''"
| "path_sep Win32 = backslash"

text \<open>
  The characters of a character class, as the RegExp constructor reads the text
  between the brackets: a backslash escapes the character that follows it.
\<close>

fun classChars :: "string \<Rightarrow> char list" where
  "classChars (c # d # ds) =
     (if c = backslash then d # classChars ds else c # classChars (d # ds))"
| "classChars cs = cs"

definition namePattern :: "platform \<Rightarrow> char list" where
  "namePattern p = classChars (path_sep p # ''/'')"

text \<open>
  \<open>namePattern.exec(name)\<close>: the leftmost, longest run of characters outside the
  class; the result is the index of the match and the matched text, or nothing.
\<close>

definition namePattern_exec :: "platform \<Rightarrow> string \<Rightarrow> (nat \<times> string) option" where
  "namePattern_exec p name =
     (let excluded = (\<lambda>c. c \<in> set (namePattern p));
          rest = dropWhile excluded name
      in if rest = [] then None
         else Some (length (takeWhile excluded name), takeWhile (\<lambda>c. \<not> excluded c) rest))"

text \<open>
  \<^verbatim>\<open>const containsDotDotPaths = /(^|[\\\/])\.\.([\\\/]|$)/;\<close>
  \<open>dotDotHere\<close> matches \<open>\.\.([\\\/]|$)\<close> at the head of the text;
  \<open>dotDotAfterSlash\<close> looks for a slash of either kind followed by such a match.
\<close>

definition isSlash :: "char \<Rightarrow> bool" where
  "isSlash c \<longleftrightarrow> c = backslash \<or> c = CHR ''/''"

fun dotDotHere :: "string \<Rightarrow> bool" where
  "dotDotHere (a # b # rest) =
     (a = CHR ''.'' \<and> b = CHR ''.'' \<and> (case rest of [] \<Rightarrow> True | c # _ \<Rightarrow> isSlash c))"
| "dotDotHere _ = False"

fun dotDotAfterSlash :: "string \<Rightarrow> bool" where
  "dotDotAfterSlash [] = False"
| "dotDotAfterSlash (c # cs) = ((isSlash c \<and> dotDotHere cs) \<or> dotDotAfterSlash cs)"

definition containsDotDotPaths :: "string \<Rightarrow> bool" where
  "containsDotDotPaths name \<longleftrightarrow> dotDotHere name \<or> dotDotAfterSlash name"

text \<open>
  What \<open>validateName(name, cb)\<close> does besides returning: with a callback it schedules
  the callback with an error, without one it writes to the console.
\<close>

datatype report = CallbackError string | ConsoleError string

definition validateName :: "platform \<Rightarrow> bool \<Rightarrow> string \<Rightarrow> bool \<times> report list" where
  "validateName p has_cb name =
     (if name = [] \<or> containsDotDotPaths name then
        (False, if has_cb then [CallbackError (''Invalid name: '' @ name)]
                else [ConsoleError (''FileSystemProvider: Invalid name: '' @ name)])
      else
        (case namePattern_exec p name of
           Some (index, matched) \<Rightarrow>
             if index = 0 \<and> length matched = length name then (True, [])
             else (False, if has_cb
                     then [CallbackError (''FileSystemProvider: Invalid name: '' @ name)]
                     else [ConsoleError (''FileSystemProvider: Invalid name: '' @ name)])
         | None \<Rightarrow>
             (False, if has_cb
                     then [CallbackError (''FileSystemProvider: Invalid name: '' @ name)]
                     else [ConsoleError (''FileSystemProvider: Invalid name: '' @ name)])))"

section \<open>Paths (Node's \<open>path\<close> module on a POSIX host)\<close>

text \<open>\<open>s.split(d)\<close> for a one-character separator: never an empty list.\<close>

fun splitOn :: "char \<Rightarrow> string \<Rightarrow> string list" where
  "splitOn d [] = [[]]"
| "splitOn d (c # cs) =
     (if c = d then [] # splitOn d cs
      else (case splitOn d cs of s # ss \<Rightarrow> (c # s) # ss | [] \<Rightarrow> [[c]]))"

fun joinWith :: "string \<Rightarrow> string list \<Rightarrow> string" where
  "joinWith d [] = []"
| "joinWith d [s] = s"
| "joinWith d (s # t # ss) = s @ d @ joinWith d (t # ss)"

text \<open>
  \<open>normalizeString\<close>: empty segments and \<open>.\<close> are dropped, \<open>..\<close> removes the
  segment before it; above the start it is kept only for relative paths.
\<close>

fun normSegs :: "bool \<Rightarrow> string list \<Rightarrow> string list \<Rightarrow> string list" where
  "normSegs allowAboveRoot acc [] = acc"
| "normSegs allowAboveRoot acc (s # ss) =
     (if s = [] \<or> s = ''.'' then normSegs allowAboveRoot acc ss
      else if s = ''..'' then
        (if acc \<noteq> [] \<and> last acc \<noteq> ''..'' then normSegs allowAboveRoot (butlast acc) ss
         else if allowAboveRoot then normSegs allowAboveRoot (acc @ [''..'']) ss
         else normSegs allowAboveRoot acc ss)
      else normSegs allowAboveRoot (acc @ [s]) ss)"

definition isAbsolute :: "string \<Rightarrow> bool" where
  "isAbsolute path \<longleftrightarrow> (case path of [] \<Rightarrow> False | c # _ \<Rightarrow> c = CHR ''/'')"

definition path_normalize :: "string \<Rightarrow> string" where
  "path_normalize path =
     (if path = [] then ''.''
      else
        let trailing = (last path = CHR ''/'');
            body = joinWith ''/'' (normSegs (\<not> isAbsolute path) [] (splitOn CHR ''/'' path))
        in if body = [] then
             (if isAbsolute path then ''/'' else if trailing then ''./'' else ''.'')
           else (if isAbsolute path then ''/'' else []) @ body
                @ (if trailing then ''/'' else []))"

definition path_join :: "string list \<Rightarrow> string" where
  "path_join args =
     (case filter (\<lambda>a. a \<noteq> []) args of
        [] \<Rightarrow> ''.''
      | as \<Rightarrow> path_normalize (joinWith ''/'' as))"

text \<open>\<open>path.basename\<close>: the last segment, trailing slashes ignored.\<close>

definition path_basename :: "string \<Rightarrow> string" where
  "path_basename path =
     (let stripped = rev (dropWhile (\<lambda>c. c = CHR ''/'') (rev path))
      in rev (takeWhile (\<lambda>c. c \<noteq> CHR ''/'') (rev stripped)))"

section \<open>The filesystem seen by the provider\<close>

datatype jsval = JNum int | JDate int | JStr string | JFun

record err =
  code :: "string option"
  message :: string
  statusCode :: "nat option"
  status :: "nat option"

definition Error :: "string \<Rightarrow> err" where
  "Error msg = \<lparr>code = None, message = msg, statusCode = None, status = None\<rparr>"

datatype kind = IsFile | IsDirectory | IsOther

text \<open>
  An \<open>fs.Stats\<close> value: what it is, and the properties a \<open>for ... in\<close> loop
  over it visits, in order (own fields such as \<open>uid\<close>, \<open>gid\<close>, \<open>size\<close> and the
  methods of its prototype).
\<close>

record stats =
  kind :: kind
  entries :: "(string \<times> jsval) list"

text \<open>The answers of the operating system, one per path.\<close>

record fsenv =
  stat_of :: "string \<Rightarrow> err + stats"
  readdir_of :: "string \<Rightarrow> err + string list"
  mkdir_of :: "string \<Rightarrow> err option"
  read_of :: "string \<Rightarrow> err + bytes"
  range_error_of :: "jsnum \<Rightarrow> jsnum option \<Rightarrow> err"

type_synonym obj = "string \<rightharpoonup> jsval"

section \<open>Metadata of containers and files\<close>

fun populateMetadata :: "(string \<times> jsval) list \<Rightarrow> obj \<Rightarrow> obj" where
  "populateMetadata [] props = props"
| "populateMetadata ((p, v) # rest) props =
     populateMetadata rest
       (if p = ''size'' \<or> p = ''atime'' \<or> p = ''mtime'' \<or> p = ''ctime''
        then props(p \<mapsto> v) else props)"

text \<open>
  \<open>File.prototype._setProperties\<close>: every property of the details that is not a
  function is copied to the new object.
\<close>

definition setProperties :: "obj \<Rightarrow> obj" where
  "setProperties details = (\<lambda>k. case details k of Some JFun \<Rightarrow> None | v \<Rightarrow> v)"

definition File :: "obj \<Rightarrow> obj" where
  "File details = setProperties details"

text \<open>
  Modelled from the spec: the module \<open>./container\<close> is not among the sources. A
  Container is built from its details as a File is (a named record with
  \<open>size\<close> and the three timestamps).
\<close>

definition Container :: "obj \<Rightarrow> obj" where
  "Container details = setProperties details"

section \<open>Operations of the filesystem provider\<close>

definition invalidName :: "bool \<Rightarrow> string \<Rightarrow> err" where
  "invalidName has_cb name =
     (case snd (validateName Posix has_cb name) of
        CallbackError msg # _ \<Rightarrow> Error msg
      | _ \<Rightarrow> Error (''FileSystemProvider: Invalid name: '' @ name))"

text \<open>
  \<open>async.parallel\<close> over the \<open>fs.stat\<close> tasks: all the results, or the error of
  a task that failed (the first one, in this model).
\<close>

fun parallel :: "(err + 'a) list \<Rightarrow> err + 'a list" where
  "parallel [] = Inr []"
| "parallel (Inl e # rs) = Inl e"
| "parallel (Inr x # rs) = (case parallel rs of Inl e \<Rightarrow> Inl e | Inr xs \<Rightarrow> Inr (x # xs))"

definition getContainers :: "fsenv \<Rightarrow> string \<Rightarrow> err + obj list" where
  "getContainers env root =
     (let files = (case readdir_of env root of Inr fs \<Rightarrow> fs | Inl _ \<Rightarrow> [])
      in case parallel (map (\<lambda>f. stat_of env (path_join [root, f])) files) of
           Inl e \<Rightarrow> Inl e
         | Inr sts \<Rightarrow>
             Inr (map (\<lambda>(name, st). Container (populateMetadata (entries st)
                                                [''name'' \<mapsto> JStr name]))
                    (filter (\<lambda>(name, st). kind st = IsDirectory) (zip files sts))))"

definition createContainer :: "fsenv \<Rightarrow> string \<Rightarrow> string \<Rightarrow> err + obj" where
  "createContainer env root name =
     (let dir = path_join [root, name]
      in if \<not> fst (validateName Posix True name) then Inl (invalidName True name)
         else case mkdir_of env dir of
                Some e \<Rightarrow> Inl e
              | None \<Rightarrow>
                  (case stat_of env dir of
                     Inl e \<Rightarrow> Inl e
                   | Inr st \<Rightarrow>
                       Inr (Container (populateMetadata (entries st)
                                         [''name'' \<mapsto> JStr name]))))"

definition getContainer :: "fsenv \<Rightarrow> string \<Rightarrow> string \<Rightarrow> err + obj" where
  "getContainer env root containerName =
     (if \<not> fst (validateName Posix True containerName)
      then Inl (invalidName True containerName)
      else let dir = path_join [root, containerName]
           in case stat_of env dir of
                Inl e \<Rightarrow> Inl e
              | Inr st \<Rightarrow>
                  Inr (Container (populateMetadata (entries st)
                                    [''name'' \<mapsto> JStr containerName])))"

definition getFiles :: "fsenv \<Rightarrow> string \<Rightarrow> string \<Rightarrow> err + obj list" where
  "getFiles env root container =
     (if \<not> fst (validateName Posix True container)
      then Inl (invalidName True container)
      else
        let dir = path_join [root, container];
            names = (case readdir_of env dir of Inr fs \<Rightarrow> fs | Inl _ \<Rightarrow> [])
        in case parallel (map (\<lambda>f. stat_of env (path_join [dir, f])) names) of
             Inl e \<Rightarrow> Inl e
           | Inr sts \<Rightarrow>
               Inr (map (\<lambda>(name, st). File (populateMetadata (entries st)
                                 [''container'' \<mapsto> JStr container, ''name'' \<mapsto> JStr name]))
                      (filter (\<lambda>(name, st). kind st = IsFile) (zip names sts))))"

definition getFile :: "fsenv \<Rightarrow> string \<Rightarrow> string \<Rightarrow> string \<Rightarrow> err + obj" where
  "getFile env root container file =
     (if \<not> fst (validateName Posix True container)
      then Inl (invalidName True container)
      else if \<not> fst (validateName Posix True file)
      then Inl (invalidName True file)
      else let filePath = path_join [root, container, file]
           in case stat_of env filePath of
                Inl e \<Rightarrow> Inl e
              | Inr st \<Rightarrow>
                  Inr (File (populateMetadata (entries st)
                        [''container'' \<mapsto> JStr container, ''name'' \<mapsto> JStr file])))"

text \<open>\<open>getUrl(options)\<close> returns the joined path.\<close>

record url_options =
  url_container :: string
  url_path :: string

definition getUrl :: "string \<Rightarrow> url_options \<Rightarrow> string" where
  "getUrl root options = path_join [root, url_container options, url_path options]"

section \<open>Reading a file: \<open>FileSystemProvider.prototype.download\<close>\<close>

record download_params =
  dp_container :: string
  dp_remote :: string
  dp_start :: "jsnum option"
  dp_end :: "jsnum option"

definition max_safe_integer :: int where
  "max_safe_integer = 2 ^ 53 - 1"

text \<open>
  \<open>fs.createReadStream(path, {start, end})\<close>: what the stream will deliver, either
  an error or the bytes \<open>start..end\<close> (both inclusive) of the file; without a
  range, the whole file. \<open>start\<close> must be an integer from 0 to \<open>2^53 - 1\<close>; \<open>end\<close>
  is absent or infinite (up to the end of the file) or such an integer, not below
  \<open>start\<close>. Otherwise the call throws the range error of the platform
  (\<open>range_error_of\<close>), which the provider turns into a stream that reports it.
\<close>

definition createReadStream ::
  "fsenv \<Rightarrow> string \<Rightarrow> (jsnum \<times> jsnum option) option \<Rightarrow> err + bytes" where
  "createReadStream env filePath rng =
     (case rng of
        None \<Rightarrow> read_of env filePath
      | Some (start, endpos) \<Rightarrow>
          (case start of
             Num s \<Rightarrow>
               if s < 0 \<or> s > max_safe_integer then Inl (range_error_of env start endpos)
               else
                 (case endpos of
                    Some (Num e) \<Rightarrow>
                      if e < 0 \<or> e > max_safe_integer \<or> e < s
                      then Inl (range_error_of env start endpos)
                      else (case read_of env filePath of
                              Inl err \<Rightarrow> Inl err
                            | Inr content \<Rightarrow>
                                Inr (take (nat (e + 1 - s)) (drop (nat s) content)))
                  | Some NaN \<Rightarrow> Inl (range_error_of env start endpos)
                  | Some NegInf \<Rightarrow> Inl (range_error_of env start endpos)
                  | _ \<Rightarrow>
                      (case read_of env filePath of
                         Inl err \<Rightarrow> Inl err
                       | Inr content \<Rightarrow> Inr (drop (nat s) content)))
           | _ \<Rightarrow> Inl (range_error_of env start endpos)))"

definition provider_download :: "fsenv \<Rightarrow> string \<Rightarrow> download_params \<Rightarrow> err + bytes" where
  "provider_download env root options =
     (let container = dp_container options in
      if \<not> fst (validateName Posix False container)
      then Inl (Error (''FileSystemProvider: Invalid name: '' @ container))
      else
        let file = dp_remote options in
        if \<not> fst (validateName Posix False file)
        then Inl (Error (''FileSystemProvider: Invalid name: '' @ file))
        else
          let filePath = path_join [root, container, file] in
          if (case dp_start options of Some n \<Rightarrow> truthy_num n | None \<Rightarrow> False)
          then createReadStream env filePath (Some (the (dp_start options), dp_end options))
          else createReadStream env filePath None)"

section \<open>The download handler\<close>

text \<open>The white space and line ends of JavaScript among the code units below 256.\<close>

definition isWhite :: "char \<Rightarrow> bool" where
  "isWhite c \<longleftrightarrow>
     c \<in> {CHR '' '', CHR 0x09, CHR 0x0A, CHR 0x0B, CHR 0x0C, CHR 0x0D, CHR 0xA0}"

definition isDigit :: "char \<Rightarrow> bool" where
  "isDigit c \<longleftrightarrow> c \<in> set ''0123456789''"

definition digitVal :: "char \<Rightarrow> int" where
  "digitVal c = int (of_char c) - 48"

text \<open>
  \<open>parseInt(s, 10)\<close>: white space, a sign, then the longest run of digits; the
  result is the double nearest to their value.
\<close>

definition parseInt :: "string \<Rightarrow> jsnum" where
  "parseInt s =
     (let s1 = dropWhile isWhite s;
          negative = (case s1 of c # _ \<Rightarrow> c = CHR ''-'' | [] \<Rightarrow> False);
          s2 = (case s1 of c # r \<Rightarrow> if c = CHR ''-'' \<or> c = CHR ''+'' then r else s1 | [] \<Rightarrow> s1);
          ds = takeWhile isDigit s2;
          n = foldl (\<lambda>a d. 10 * a + digitVal d) 0 ds
      in if ds = [] then NaN else to_double (if negative then - n else n))"

text \<open>\<open>s.replace(/bytes=/, '')\<close>: the first occurrence of the text is removed.\<close>

fun removeFirst :: "string \<Rightarrow> string \<Rightarrow> string" where
  "removeFirst pat [] = []"
| "removeFirst pat (c # cs) =
     (if take (length pat) (c # cs) = pat then drop (length pat) (c # cs)
      else c # removeFirst pat cs)"

record request =
  range_header :: "string option"
  param_container :: string
  param_file :: string

datatype header_value = HText string | HNumber jsnum | HRange jsnum jsnum jsnum

record response =
  res_status :: "nat option"
  res_headers :: "(string \<times> header_value) list"
  res_type :: "string option"
  res_body :: bytes

definition fresh_response :: response where
  "fresh_response = \<lparr>res_status = None, res_headers = [], res_type = None, res_body = []\<rparr>"

definition processError :: "err \<Rightarrow> string \<Rightarrow> err" where
  "processError e fileName =
     (if code e = Some ''ENOENT''
      then e\<lparr>statusCode := Some 404, status := Some 404,
              message := ''File not found: '' @ fileName\<rparr>
      else e)"

text \<open>
  \<open>setupPartialDownload(params, stats, res)\<close>; the header
  \<open>'bytes ' + start + '-' + end + '/' + total\<close> is kept as its three numbers.
\<close>

definition setupPartialDownload ::
  "string \<Rightarrow> download_params \<Rightarrow> obj \<Rightarrow> response \<Rightarrow> download_params \<times> response" where
  "setupPartialDownload rng params stats res =
     (let total = (case stats ''size'' of Some (JNum n) \<Rightarrow> Num n | _ \<Rightarrow> NaN);
          parts = splitOn CHR ''-'' (removeFirst ''bytes='' rng);
          partialstart = hd parts;
          partialend = (case tl parts of [] \<Rightarrow> None | e # _ \<Rightarrow> Some e);
          start = parseInt partialstart;
          endpos = (case partialend of
                   None \<Rightarrow> num_sub total (Num 1)
                 | Some e \<Rightarrow> if e = [] then num_sub total (Num 1) else parseInt e);
          chunksize = num_add (num_sub endpos start) (Num 1)
      in (params\<lparr>dp_start := Some start, dp_end := Some endpos\<rparr>,
          res\<lparr>res_status := Some 206,
              res_headers := res_headers res @
                [(''Content-Range'', HRange start endpos total),
                 (''Accept-Ranges'', HText ''bytes''),
                 (''Content-Length'', HNumber chunksize)]\<rparr>))"

text \<open>
  The two listeners on the read stream. \<open>cb_live\<close> tells whether \<open>cb\<close> is still
  the caller's callback; after either event it is the empty function.
\<close>

datatype reader_event = ReaderError err | ReaderEnd

record completion =
  cb_live :: bool
  cb_calls :: "err option list"

fun on_reader_event :: "string \<Rightarrow> completion \<Rightarrow> reader_event \<Rightarrow> completion" where
  "on_reader_event remote c (ReaderError e) =
     \<lparr>cb_live = False,
      cb_calls = cb_calls c @ (if cb_live c then [Some (processError e remote)] else [])\<rparr>"
| "on_reader_event remote c ReaderEnd =
     \<lparr>cb_live = False,
      cb_calls = cb_calls c @ (if cb_live c then [None] else [])\<rparr>"

definition run_reader :: "string \<Rightarrow> reader_event list \<Rightarrow> err option list" where
  "run_reader remote events =
     cb_calls (foldl (on_reader_event remote) \<lparr>cb_live = True, cb_calls = []\<rparr> events)"

record download_result =
  dl_response :: response
  dl_calls :: "err option list"

text \<open>The inner function \<open>download(params)\<close>: the reader is piped into the response.\<close>

definition download_stream ::
  "fsenv \<Rightarrow> string \<Rightarrow> string \<Rightarrow> download_params \<Rightarrow> response \<Rightarrow> download_result" where
  "download_stream env root fileName params res =
     (case provider_download env root params of
        Inl e \<Rightarrow>
          \<lparr>dl_response = res\<lparr>res_type := Some fileName\<rparr>,
           dl_calls = run_reader (dp_remote params) [ReaderError e]\<rparr>
      | Inr content \<Rightarrow>
          \<lparr>dl_response = res\<lparr>res_type := Some fileName, res_body := res_body res @ content\<rparr>,
           dl_calls = run_reader (dp_remote params) [ReaderEnd]\<rparr>)"

text \<open>\<open>a || b\<close> on strings: the empty string is falsy.\<close>

definition or_else :: "string \<Rightarrow> string \<Rightarrow> string" where
  "or_else a b = (if a \<noteq> [] then a else b)"

text \<open>
  \<open>exports.download(provider, req, res, container, file, cb)\<close> on the filesystem
  provider rooted at \<open>root\<close>; \<open>req\<close> may be missing.
\<close>

definition download ::
  "fsenv \<Rightarrow> string \<Rightarrow> request option \<Rightarrow> string \<Rightarrow> string \<Rightarrow> download_result" where
  "download env root req container file =
     (case req of
        None \<Rightarrow> \<lparr>dl_response = fresh_response, dl_calls = []\<rparr>
      | Some r \<Rightarrow>
          let fileName = path_basename file;
              params = \<lparr>dp_container = or_else container (param_container r),
                        dp_remote = or_else file (param_file r),
                        dp_start = None, dp_end = None\<rparr>;
              rng = (case range_header r of None \<Rightarrow> [] | Some h \<Rightarrow> h)
          in if rng = [] then download_stream env root fileName params fresh_response
             else (case getFile env root (dp_container params) (dp_remote params) of
                     Inl e \<Rightarrow>
                       \<lparr>dl_response = fresh_response,
                        dl_calls = [Some (processError e (dp_remote params))]\<rparr>
                   | Inr stats \<Rightarrow>
                       (case setupPartialDownload rng params stats fresh_response of
                          (params', res') \<Rightarrow> download_stream env root fileName params' res')))"

text \<open>\<open>s.includes(sub)\<close>: the text occurs somewhere in \<open>s\<close>.\<close>

fun str_includes :: "string \<Rightarrow> string \<Rightarrow> bool" where
  "str_includes [] sub = (sub = [])"
| "str_includes (c # cs) sub = (take (length sub) (c # cs) = sub \<or> str_includes cs sub)"

section \<open>The upload handler\<close>

text \<open>
  Functions of the Node platform that the handler calls: \<open>path.extname\<close>,
  \<open>String.prototype.toLowerCase\<close>, the hex digest of the two hashes over the bytes
  they were fed, and \<open>StringDecoder.write\<close> (pending bytes and a buffer give the
  decoded text and the bytes still pending).
\<close>

record node_lib =
  path_extname :: "string \<Rightarrow> string"
  toLowerCase :: "string \<Rightarrow> string"
  md5_hex :: "bytes \<Rightarrow> string"
  sha256_hex :: "bytes \<Rightarrow> string"
  decoder_write :: "bytes \<Rightarrow> bytes \<Rightarrow> string \<times> bytes"

text \<open>The \<open>file\<close> object that \<open>handlePart\<close> builds for a file part.\<close>

record upload_file =
  uf_container :: string
  uf_name :: string
  uf_type :: "string option"
  uf_field :: string
  uf_originalFilename :: "string option"
  uf_acl :: "string option"
  uf_size :: "int option"
  uf_md5 :: "string option"
  uf_sha256 :: "string option"
  uf_providerResponse :: "string option"

text \<open>An option that is a value or a function of the file (and the request, response).\<close>

datatype 'a setting = Fixed 'a | Computed "upload_file \<Rightarrow> 'a"

fun resolve :: "'a setting \<Rightarrow> upload_file \<Rightarrow> 'a" where
  "resolve (Fixed v) file = v"
| "resolve (Computed f) file = f file"

text \<open>
  The options of one upload; \<open>None\<close> is an option that was not given.
  \<open>opt_container\<close> is \<open>options.container || req.params.container\<close>,
  \<open>opt_maxFieldsSize\<close> the limit of the form. The \<open>AWS\<close> options are only copied
  into the parameters of \<open>provider.upload\<close>, which the filesystem provider does not
  read, and are left out.
\<close>

record upload_options =
  opt_container :: string
  opt_maxFileSize :: "int setting option"
  opt_maxFieldsSize :: nat
  opt_forbidExtnames :: "string list option"
  opt_allowedContentTypes :: "string list setting option"
  opt_getFilename :: "(upload_file \<Rightarrow> string) option"
  opt_nameConflict :: "string option"
  opt_acl :: "string setting option"

record multipart_part =
  part_name :: string
  part_filename :: "string option"
  part_mime :: "string option"

datatype upload_error =
    MaxFieldsSizeExceeded nat
  | ExtnameNotAllowed string "string list"
  | ContentTypeNotAllowed "string option" "string list"
  | MaxFileSizeExceeded int int
  | WriterFailed err
  | NoFileContent

text \<open>The listeners of a part and the variables they close over.\<close>

record field_part =
  fd_name :: string
  fd_value :: string
  fd_pending :: bytes
  fd_ended :: bool

record file_part =
  fp_file :: upload_file
  fp_maxFileSize :: int
  fp_fileSize :: int
  fp_hashed :: bytes
  fp_writer :: nat
  fp_ended :: bool

datatype part_closure = FieldPart field_part | FilePart file_part | RejectedPart

text \<open>
  The stream that \<open>provider.upload\<close> returned: a write stream on the file
  \<open>root/container/remote\<close>, or, for an invalid name, the stream of
  \<open>writeStreamError\<close>, which takes no bytes and reports the error.
\<close>

record writer =
  w_container :: string
  w_remote :: string
  w_part :: nat
  w_invalid :: bool
  w_written :: bytes
  w_ended :: bool
  w_destroyed :: bool
  w_done :: bool

datatype callback = CbError upload_error
  | CbResult "(string \<times> upload_file list) list" "(string \<times> string list) list"

text \<open>
  The state of one upload. \<open>f_files\<close> holds, per field, references to the file
  objects (the index of their part); \<open>f_error\<close> and \<open>f_ended\<close> are the form's
  \<open>error\<close> and \<open>ended\<close>; \<open>f_removed\<close> lists the calls of \<open>provider.removeFile\<close>
  and \<open>f_callbacks\<close> the invocations of \<open>cb\<close>; \<open>f_thrown\<close> tells that a
  listener threw a \<open>TypeError\<close>, which nothing catches.
\<close>

record form =
  f_fields :: "(string \<times> string list) list"
  f_files :: "(string \<times> nat list) list"
  f_flushing :: int
  f_fieldsSize :: nat
  f_error :: "upload_error option"
  f_ended :: bool
  f_writer :: "nat option"
  f_filename :: "string option"
  f_parts :: "part_closure list"
  f_writers :: "writer list"
  f_removed :: "(string \<times> string) list"
  f_callbacks :: "callback list"
  f_thrown :: bool

definition new_form :: form where
  "new_form = \<lparr>f_fields = [], f_files = [], f_flushing = 0, f_fieldsSize = 0,
               f_error = None, f_ended = False, f_writer = None, f_filename = None,
               f_parts = [], f_writers = [], f_removed = [], f_callbacks = [],
               f_thrown = False\<rparr>"

text \<open>
  \<open>fields\<close> and \<open>files\<close> are plain objects \<open>{}\<close>, kept as the list of their own
  properties. These are the names that such an object inherits from
  \<open>Object.prototype\<close>; what is found under them is a function or an object, never
  an array.
\<close>

definition object_prototype_keys :: "string list" where
  "object_prototype_keys =
     [''constructor'', ''__defineGetter__'', ''__defineSetter__'', ''hasOwnProperty'',
      ''__lookupGetter__'', ''__lookupSetter__'', ''isPrototypeOf'',
      ''propertyIsEnumerable'', ''toString'', ''valueOf'', ''__proto__'',
      ''toLocaleString'']"

text \<open>The append to the values of an own property, or the first value of a new one.\<close>

fun push_own :: "string \<Rightarrow> 'a \<Rightarrow> (string \<times> 'a list) list \<Rightarrow> (string \<times> 'a list) list" where
  "push_own k v [] = [(k, [v])]"
| "push_own k v ((k', vs) # rest) =
     (if k' = k then (k', vs @ [v]) # rest else (k', vs) # push_own k v rest)"

text \<open>
  \<open>values = obj[key]; if (values === undefined) obj[key] = [v]; else values.push(v)\<close>
  For a name that is not an own property but inherited, \<open>values\<close> is not
  \<open>undefined\<close> and has no \<open>push\<close>: the call throws a \<open>TypeError\<close> (\<open>None\<close>).
\<close>

definition push_value ::
  "string \<Rightarrow> 'a \<Rightarrow> (string \<times> 'a list) list \<Rightarrow> (string \<times> 'a list) list option" where
  "push_value k v obj =
     (if k \<notin> fst ` set obj \<and> k \<in> set object_prototype_keys then None
      else Some (push_own k v obj))"

text \<open>The listener of line 46: \<open>form.on('error', ...)\<close>.\<close>

definition on_form_error :: "upload_options \<Rightarrow> form \<Rightarrow> form" where
  "on_form_error opts s =
     (let s1 = (case f_writer s of
                  Some w \<Rightarrow>
                    if w < length (f_writers s) \<and> \<not> w_destroyed (f_writers s ! w)
                    then s\<lparr>f_writers := (f_writers s)[w := (f_writers s ! w)\<lparr>w_destroyed := True\<rparr>]\<rparr>
                    else s
                | None \<Rightarrow> s)
      in case f_filename s1 of
           Some name \<Rightarrow>
             if name \<noteq> [] then s1\<lparr>f_removed := f_removed s1 @ [(opt_container opts, name)]\<rparr>
             else s1
         | None \<Rightarrow> s1)"

text \<open>
  Modelled from the spec: the form object comes from the \<open>formidable\<close> package, which
  is not among the sources. \<open>form.parse(req, callback)\<close> subscribes the callback
  of line 261 to the events \<open>error\<close> and \<open>end\<close> of the form, after the listener of
  line 46; that callback passes an error on to \<open>cb\<close>, and at the end answers with
  the \<open>No file content uploaded\<close> error or the result.
\<close>

definition resolve_files :: "form \<Rightarrow> (string \<times> upload_file list) list" where
  "resolve_files s =
     map (\<lambda>(k, refs). (k, concat (map (\<lambda>i. case f_parts s ! i of
                                               FilePart fp \<Rightarrow> [fp_file fp] | _ \<Rightarrow>  []) refs)))
       (f_files s)"

definition emit_error :: "upload_options \<Rightarrow> upload_error \<Rightarrow> form \<Rightarrow> form" where
  "emit_error opts e s =
     (let s1 = on_form_error opts s
      in s1\<lparr>f_callbacks := f_callbacks s1 @ [CbError e]\<rparr>)"

definition emit_end :: "form \<Rightarrow> form" where
  "emit_end s =
     s\<lparr>f_callbacks := f_callbacks s @
         [if f_files s = [] then CbError NoFileContent
          else CbResult (resolve_files s) (f_fields s)]\<rparr>"

text \<open>
  Modelled from the spec: \<open>form._error\<close> (first error wins: it records the error and
  emits \<open>error\<close> unless an error is already recorded or the form has ended) and
  \<open>form._maybeEnd\<close> (it emits \<open>end\<close> once the request has ended, no file is
  being flushed and no error is recorded).
\<close>

definition form_error :: "upload_options \<Rightarrow> upload_error \<Rightarrow> form \<Rightarrow> form" where
  "form_error opts e s =
     (if f_error s \<noteq> None \<or> f_ended s then s
      else emit_error opts e (s\<lparr>f_error := Some e\<rparr>))"

definition maybeEnd :: "form \<Rightarrow> form" where
  "maybeEnd s =
     (if \<not> f_ended s \<or> f_flushing s \<noteq> 0 \<or> f_error s \<noteq> None then s else emit_end s)"

definition defaultMaxFileSize :: int where
  "defaultMaxFileSize = 10 * 1024 * 1024"

text \<open>
  \<open>if (!options.maxFileSize) options.maxFileSize = defaultOptions.maxFileSize\<close>, then
  per file: the number, or what the function returns.
\<close>

definition effective_maxFileSize :: "upload_options \<Rightarrow> upload_file \<Rightarrow> int" where
  "effective_maxFileSize opts file =
     (case opt_maxFileSize opts of
        None \<Rightarrow> defaultMaxFileSize
      | Some (Fixed n) \<Rightarrow> if n = 0 then defaultMaxFileSize else n
      | Some (Computed f) \<Rightarrow> f file)"

text \<open>\<open>FileSystemProvider.prototype.upload\<close>, called without a callback.\<close>

definition provider_upload :: "string \<Rightarrow> string \<Rightarrow> nat \<Rightarrow> writer" where
  "provider_upload container remote part =
     \<lparr>w_container = container, w_remote = remote, w_part = part,
      w_invalid = (\<not> fst (validateName Posix False container)
                   \<or> \<not> fst (validateName Posix False remote)),
      w_written = [], w_ended = False, w_destroyed = False, w_done = False\<rparr>"

text \<open>
  The first steps of \<open>form.handlePart(part)\<close> for a file part: the \<open>file\<close> object,
  its stored name (\<open>uuid\<close> is what \<open>uuid.v4()\<close> returns if it is called), and the
  check of the extension.
\<close>

definition initial_file :: "upload_options \<Rightarrow> multipart_part \<Rightarrow> upload_file" where
  "initial_file opts part =
     \<lparr>uf_container = opt_container opts, uf_name = the (part_filename part),
      uf_type = part_mime part, uf_field = part_name part,
      uf_originalFilename = None, uf_acl = None, uf_size = None,
      uf_md5 = None, uf_sha256 = None, uf_providerResponse = None\<rparr>"

definition named_file :: "node_lib \<Rightarrow> upload_options \<Rightarrow> multipart_part \<Rightarrow> string \<Rightarrow> upload_file" where
  "named_file lib opts part uuid =
     (let file = initial_file opts part
      in case opt_getFilename opts of
           Some getFilename \<Rightarrow>
             file\<lparr>uf_originalFilename := Some (uf_name file),
                  uf_name := getFilename (file\<lparr>uf_originalFilename := Some (uf_name file)\<rparr>)\<rparr>
         | None \<Rightarrow>
             if opt_nameConflict opts = Some ''makeUnique''
             then file\<lparr>uf_originalFilename := Some (uf_name file),
                       uf_name := uuid @ path_extname lib (uf_name file)\<rparr>
             else file)"

definition forbidden_extname :: "node_lib \<Rightarrow> upload_options \<Rightarrow> string \<Rightarrow> bool" where
  "forbidden_extname lib opts extname =
     (case opt_forbidExtnames opts of
        Some forbidExtnames \<Rightarrow>
          forbidExtnames \<noteq> []
          \<and> toLowerCase lib extname \<in> set (map (toLowerCase lib) forbidExtnames)
      | None \<Rightarrow> False)"

text \<open>
  The list of allowed content types of a file; the check is made only for a
  list that is not empty.
\<close>

definition allowed_types :: "upload_options \<Rightarrow> upload_file \<Rightarrow> string list" where
  "allowed_types opts file =
     (case opt_allowedContentTypes opts of Some a \<Rightarrow> resolve a file | None \<Rightarrow> [])"

definition type_rejected :: "upload_options \<Rightarrow> upload_file \<Rightarrow> bool" where
  "type_rejected opts file \<longleftrightarrow>
     allowed_types opts file \<noteq> []
     \<and> (case uf_type file of Some t \<Rightarrow> t \<notin> set (allowed_types opts file) | None \<Rightarrow> True)"

definition with_acl :: "upload_options \<Rightarrow> upload_file \<Rightarrow> upload_file" where
  "with_acl opts file =
     (case opt_acl opts of
        Some (Fixed a) \<Rightarrow> if a \<noteq> [] then file\<lparr>uf_acl := Some a\<rparr> else file
      | Some (Computed f) \<Rightarrow> file\<lparr>uf_acl := Some (f file)\<rparr>
      | None \<Rightarrow> file)"

text \<open>\<open>form.handlePart(part)\<close>.\<close>

definition handlePart ::
  "node_lib \<Rightarrow> upload_options \<Rightarrow> multipart_part \<Rightarrow> string \<Rightarrow> form \<Rightarrow> form" where
  "handlePart lib opts part uuid s =
     (if part_filename part = None \<or> part_filename part = Some [] then
        s\<lparr>f_parts := f_parts s @
             [FieldPart \<lparr>fd_name = part_name part, fd_value = [], fd_pending = [],
                         fd_ended = False\<rparr>]\<rparr>
      else
        let extname = path_extname lib (the (part_filename part));
            file = named_file lib opts part uuid;
            s1 = s\<lparr>f_flushing := f_flushing s + 1, f_filename := Some (uf_name file)\<rparr>
        in if forbidden_extname lib opts extname then
             (form_error opts (ExtnameNotAllowed extname (the (opt_forbidExtnames opts))) s1)
               \<lparr>f_parts := f_parts s1 @ [RejectedPart]\<rparr>
           else if type_rejected opts file then
             (form_error opts (ContentTypeNotAllowed (uf_type file) (allowed_types opts file)) s1)
               \<lparr>f_parts := f_parts s1 @ [RejectedPart]\<rparr>
           else
             let maxFileSize = effective_maxFileSize opts file;
                 file' = with_acl opts file;
                 w = length (f_writers s1);
                 p = length (f_parts s1)
             in s1\<lparr>f_writers := f_writers s1 @
                       [provider_upload (opt_container opts) (uf_name file') p],
                    f_writer := Some w,
                    f_parts := f_parts s1 @
                      [FilePart \<lparr>fp_file = file', fp_maxFileSize = maxFileSize, fp_fileSize = 0,
                                  fp_hashed = [], fp_writer = w, fp_ended = False\<rparr>]\<rparr>)"

text \<open>
  The \<open>data\<close> listeners of a part. For a file part they run in the order of their
  registration: the size check (when \<open>maxFileSize\<close> is truthy), the two hashes, and
  the write of \<open>part.pipe(writer)\<close>; a stream that was destroyed, or that stands
  for an invalid name, takes no bytes.
\<close>

definition on_part_data :: "node_lib \<Rightarrow> upload_options \<Rightarrow> nat \<Rightarrow> bytes \<Rightarrow> form \<Rightarrow> form" where
  "on_part_data lib opts p buffer s =
     (case f_parts s ! p of
        FieldPart fd \<Rightarrow>
          let s1 = s\<lparr>f_fieldsSize := f_fieldsSize s + length buffer\<rparr>
          in if f_fieldsSize s1 > opt_maxFieldsSize opts
             then form_error opts (MaxFieldsSizeExceeded (f_fieldsSize s1)) s1
             else (case decoder_write lib (fd_pending fd) buffer of
                     (text, pending) \<Rightarrow>
                       s1\<lparr>f_parts := (f_parts s1)
                            [p := FieldPart (fd\<lparr>fd_value := fd_value fd @ text,
                                                 fd_pending := pending\<rparr>)]\<rparr>)
      | FilePart fp \<Rightarrow>
          let fp1 = (if fp_maxFileSize fp \<noteq> 0
                     then fp\<lparr>fp_fileSize := fp_fileSize fp + int (length buffer),
                             fp_file := (fp_file fp)\<lparr>uf_size :=
                                Some (fp_fileSize fp + int (length buffer))\<rparr>\<rparr>
                     else fp);
              s1 = s\<lparr>f_parts := (f_parts s)[p := FilePart fp1]\<rparr>;
              s2 = (if fp_maxFileSize fp \<noteq> 0 \<and> fp_fileSize fp1 > fp_maxFileSize fp
                    then form_error opts
                           (MaxFileSizeExceeded (fp_fileSize fp1) (fp_maxFileSize fp)) s1
                    else s1);
              s3 = s2\<lparr>f_parts := (f_parts s2)
                        [p := FilePart (fp1\<lparr>fp_hashed := fp_hashed fp1 @ buffer\<rparr>)]\<rparr>;
              w = fp_writer fp;
              wr = f_writers s3 ! w
          in if w_destroyed wr \<or> w_invalid wr then s3
             else s3\<lparr>f_writers := (f_writers s3)[w := wr\<lparr>w_written := w_written wr @ buffer\<rparr>]\<rparr>
      | RejectedPart \<Rightarrow> s)"

text \<open>The \<open>end\<close> listener of a part.\<close>

definition on_part_end :: "node_lib \<Rightarrow> nat \<Rightarrow> form \<Rightarrow> form" where
  "on_part_end lib p s =
     (case f_parts s ! p of
        FieldPart fd \<Rightarrow>
          (case push_value (fd_name fd) (fd_value fd) (f_fields s) of
             None \<Rightarrow> s\<lparr>f_thrown := True\<rparr>
           | Some pushed \<Rightarrow>
               s\<lparr>f_fields := pushed,
                 f_parts := (f_parts s)[p := FieldPart (fd\<lparr>fd_ended := True\<rparr>)]\<rparr>)
      | FilePart fp \<Rightarrow>
          let w = fp_writer fp
          in s\<lparr>f_writers := (f_writers s)[w := (f_writers s ! w)\<lparr>w_ended := True\<rparr>],
               f_parts := (f_parts s)
                 [p := FilePart (fp\<lparr>fp_ended := True,
                    fp_file := (fp_file fp)\<lparr>uf_md5 := Some (md5_hex lib (fp_hashed fp)),
                                             uf_sha256 := Some (sha256_hex lib (fp_hashed fp))\<rparr>\<rparr>)]\<rparr>
      | RejectedPart \<Rightarrow> s)"

text \<open>
  \<open>endFunc\<close>, the listener of the writer's \<open>success\<close> event. The filesystem
  provider emits \<open>success\<close>, without an argument, from its listener of the
  \<open>finish\<close> event of the write stream.
\<close>

definition endFunc :: "nat \<Rightarrow> string option \<Rightarrow> form \<Rightarrow> form" where
  "endFunc p providerFile s =
     (case f_parts s ! p of
        FilePart fp \<Rightarrow>
          let s1 = s\<lparr>f_flushing := f_flushing s - 1,
                     f_parts := (f_parts s)
                       [p := FilePart (fp\<lparr>fp_file := (fp_file fp)\<lparr>uf_providerResponse := providerFile\<rparr>\<rparr>)]\<rparr>
          in (case push_value (uf_field (fp_file fp)) p (f_files s) of
                None \<Rightarrow> s1\<lparr>f_thrown := True\<rparr>
              | Some pushed \<Rightarrow> maybeEnd (s1\<lparr>f_files := pushed\<rparr>))
      | _ \<Rightarrow> s)"

definition on_writer_finish :: "nat \<Rightarrow> form \<Rightarrow> form" where
  "on_writer_finish w s =
     endFunc (w_part (f_writers s ! w)) None
       (s\<lparr>f_writers := (f_writers s)[w := (f_writers s ! w)\<lparr>w_done := True\<rparr>]\<rparr>)"

text \<open>
  The listener of the writer's \<open>error\<close> event: \<open>self.emit('error', err)\<close>. The
  stream that failed is destroyed.
\<close>

definition on_writer_error :: "upload_options \<Rightarrow> nat \<Rightarrow> err \<Rightarrow> form \<Rightarrow> form" where
  "on_writer_error opts w e s =
     emit_error opts (WriterFailed e)
       (s\<lparr>f_writers := (f_writers s)
             [w := (f_writers s ! w)\<lparr>w_done := True, w_destroyed := True\<rparr>]\<rparr>)"

text \<open>
  What happens to an upload: the parser of the form hands over a part, a buffer
  of the current part, or its end; a write stream finishes, fails or closes; the
  request ends (the form sets \<open>ended\<close> and calls \<open>_maybeEnd\<close>).
\<close>

datatype event =
    Part multipart_part string
  | PartData nat bytes
  | PartEnd nat
  | WriterFinish nat
  | WriterError nat err
  | WriterClose nat
  | RequestEnd

fun step :: "node_lib \<Rightarrow> upload_options \<Rightarrow> form \<Rightarrow> event \<Rightarrow> form" where
  "step lib opts s (Part part uuid) = handlePart lib opts part uuid s"
| "step lib opts s (PartData p buffer) = on_part_data lib opts p buffer s"
| "step lib opts s (PartEnd p) = on_part_end lib p s"
| "step lib opts s (WriterFinish w) = on_writer_finish w s"
| "step lib opts s (WriterError w e) = on_writer_error opts w e s"
| "step lib opts s (WriterClose w) = s"
| "step lib opts s RequestEnd = maybeEnd (s\<lparr>f_ended := True\<rparr>)"

text \<open>
  Which events can happen in a state. The parser works through the request in
  order, one part at a time, and stops once the form has recorded an error; a write
  stream finishes only after \<open>end()\<close> was called on it and it was neither
  destroyed nor failed, and it fails at most once. An exception that a listener
  throws ends the process: no event follows it. Each event is handled to its end
  before the next one: in particular \<open>finish\<close> is emitted in a later turn of the
  event loop than the call of \<open>end()\<close> (as \<open>fs.WriteStream\<close> does since it
  has a \<open>_final\<close> method).
\<close>

fun part_open :: "part_closure \<Rightarrow> bool" where
  "part_open (FieldPart fd) = (\<not> fd_ended fd)"
| "part_open (FilePart fp) = (\<not> fp_ended fp)"
| "part_open RejectedPart = False"

definition parsing :: "form \<Rightarrow> bool" where
  "parsing s \<longleftrightarrow> f_error s = None \<and> \<not> f_ended s \<and> \<not> f_thrown s"

definition current_open :: "form \<Rightarrow> bool" where
  "current_open s \<longleftrightarrow> f_parts s \<noteq> [] \<and> part_open (last (f_parts s))"

fun enabled :: "form \<Rightarrow> event \<Rightarrow> bool" where
  "enabled s (Part part uuid) = (parsing s \<and> \<not> current_open s)"
| "enabled s (PartData p buffer) = (parsing s \<and> current_open s \<and> Suc p = length (f_parts s))"
| "enabled s (PartEnd p) = (parsing s \<and> current_open s \<and> Suc p = length (f_parts s))"
| "enabled s (WriterFinish w) =
     (\<not> f_thrown s
      \<and> w < length (f_writers s) \<and> w_ended (f_writers s ! w) \<and> \<not> w_destroyed (f_writers s ! w)
      \<and> \<not> w_done (f_writers s ! w) \<and> \<not> w_invalid (f_writers s ! w))"
| "enabled s (WriterError w e) =
     (\<not> f_thrown s \<and> w < length (f_writers s) \<and> \<not> w_done (f_writers s ! w))"
| "enabled s (WriterClose w) = (\<not> f_thrown s \<and> w < length (f_writers s))"
| "enabled s RequestEnd = (parsing s \<and> \<not> current_open s)"

fun run :: "node_lib \<Rightarrow> upload_options \<Rightarrow> form \<Rightarrow> event list \<Rightarrow> form" where
  "run lib opts s [] = s"
| "run lib opts s (ev # evs) = run lib opts (step lib opts s ev) evs"

fun possible :: "node_lib \<Rightarrow> upload_options \<Rightarrow> form \<Rightarrow> event list \<Rightarrow> bool" where
  "possible lib opts s [] = True"
| "possible lib opts s (ev # evs) = (enabled s ev \<and> possible lib opts (step lib opts s ev) evs)"

inductive reachable :: "node_lib \<Rightarrow> upload_options \<Rightarrow> form \<Rightarrow> bool"
  for lib :: node_lib and opts :: upload_options where
  reach_start: "reachable lib opts new_form"
| reach_step: "reachable lib opts s \<Longrightarrow> enabled s ev \<Longrightarrow> reachable lib opts (step lib opts s ev)"

text \<open>All the bytes that part \<open>p\<close> received in a sequence of events, in order.\<close>

fun buffer_for :: "nat \<Rightarrow> event \<Rightarrow> bytes" where
  "buffer_for p (PartData q buffer) = (if q = p then buffer else [])"
| "buffer_for p _ = []"

definition received :: "nat \<Rightarrow> event list \<Rightarrow> bytes" where
  "received p evs = concat (map (buffer_for p) evs)"

text \<open>The bytes fed to the two hashes of part \<open>p\<close> so far, if it is a file part.\<close>

definition hashed :: "form \<Rightarrow> nat \<Rightarrow> bytes option" where
  "hashed s p = (case f_parts s ! p of FilePart fp \<Rightarrow> Some (fp_hashed fp) | _ \<Rightarrow> None)"

text \<open>The text that the decoder gives for the buffers of a field, in order.\<close>

fun decode_all :: "node_lib \<Rightarrow> bytes \<Rightarrow> bytes list \<Rightarrow> string" where
  "decode_all lib pending [] = []"
| "decode_all lib pending (b # bs) =
     (case decoder_write lib pending b of
        (text, pending') \<Rightarrow> text @ decode_all lib pending' bs)"

text \<open>
  What holds in every state of an upload: every writer belongs to a file part that
  names it, and once \<open>end()\<close> was called on a writer, its part has ended and both
  digests of the file are those of the bytes hashed.
\<close>

definition digests_final :: "node_lib \<Rightarrow> file_part \<Rightarrow> bool" where
  "digests_final lib fp \<longleftrightarrow>
     fp_ended fp
     \<and> uf_md5 (fp_file fp) = Some (md5_hex lib (fp_hashed fp))
     \<and> uf_sha256 (fp_file fp) = Some (sha256_hex lib (fp_hashed fp))"

definition writers_ok :: "node_lib \<Rightarrow> form \<Rightarrow> bool" where
  "writers_ok lib s \<longleftrightarrow>
     (\<forall>w < length (f_writers s).
        w_part (f_writers s ! w) < length (f_parts s)
        \<and> (\<exists>fp. f_parts s ! w_part (f_writers s ! w) = FilePart fp \<and> fp_writer fp = w
               \<and> (w_ended (f_writers s ! w) \<longrightarrow> digests_final lib fp)))"

definition parts_ok :: "form \<Rightarrow> bool" where
  "parts_ok s \<longleftrightarrow>
     (\<forall>p < length (f_parts s). \<forall>fp. f_parts s ! p = FilePart fp \<longrightarrow>
        fp_writer fp < length (f_writers s) \<and> w_part (f_writers s ! fp_writer fp) = p)"

section \<open>A small storage root, used to run the operations\<close>

definition ENOENT :: "string \<Rightarrow> string \<Rightarrow> err" where
  "ENOENT syscall p =
     \<lparr>code = Some ''ENOENT'',
      message = ''ENOENT: no such file or directory, '' @ syscall @ '' '' @ p,
      statusCode = None, status = None\<rparr>"

definition ERR_OUT_OF_RANGE :: err where
  "ERR_OUT_OF_RANGE = \<lparr>code = Some ''ERR_OUT_OF_RANGE'', message = ''out of range'',
                        statusCode = None, status = None\<rparr>"

definition example_stats :: "kind \<Rightarrow> int \<Rightarrow> stats" where
  "example_stats k n =
     \<lparr>kind = k,
      entries = [(''dev'', JNum 2049), (''mode'', JNum 33188), (''uid'', JNum 1000),
                 (''gid'', JNum 1000), (''size'', JNum n), (''atime'', JDate 1700000000),
                 (''mtime'', JDate 1700000001), (''ctime'', JDate 1700000002),
                 (''isFile'', JFun), (''isDirectory'', JFun)]\<rparr>"

definition example_content :: bytes where
  "example_content = replicate 100 CHR ''a'' @ replicate 50 CHR ''b''"

text \<open>
  The root \<open>/srv/storage\<close> holds the container \<open>album1\<close> with the 150-byte file
  \<open>test.bin\<close>; \<open>album2\<close> is the directory a successful \<open>mkdir\<close> leaves behind.
\<close>

definition example_env :: fsenv where
  "example_env =
     \<lparr>stat_of = (\<lambda>p.
        if p = ''/srv/storage/album1'' \<or> p = ''/srv/storage/album2''
        then Inr (example_stats IsDirectory 4096)
        else if p = ''/srv/storage/album1/test.bin'' then Inr (example_stats IsFile 150)
        else Inl (ENOENT ''stat'' p)),
      readdir_of = (\<lambda>p.
        if p = ''/srv/storage'' then Inr [''album1'']
        else if p = ''/srv/storage/album1'' then Inr [''test.bin'']
        else Inl (ENOENT ''scandir'' p)),
      mkdir_of = (\<lambda>p. None),
      read_of = (\<lambda>p.
        if p = ''/srv/storage/album1/test.bin'' then Inr example_content
        else Inl (ENOENT ''open'' p)),
      range_error_of = (\<lambda>start endpos. ERR_OUT_OF_RANGE)\<rparr>"

definition range_request :: "string \<Rightarrow> request" where
  "range_request h = \<lparr>range_header = Some h, param_container = [], param_file = []\<rparr>"

definition plain_request :: request where
  "plain_request = \<lparr>range_header = None, param_container = [], param_file = []\<rparr>"

text \<open>
  An instance of the platform functions (the two digests only mark the bytes they
  were given), the options of an upload and two parts.
\<close>

definition example_lib :: node_lib where
  "example_lib =
     \<lparr>path_extname = (\<lambda>n. if CHR ''.'' \<in> set n
                           then CHR ''.'' # rev (takeWhile (\<lambda>c. c \<noteq> CHR ''.'') (rev n))
                           else []),
      toLowerCase = (\<lambda>s. s),
      md5_hex = (\<lambda>b. ''md5('' @ b @ '')''),
      sha256_hex = (\<lambda>b. ''sha256('' @ b @ '')''),
      decoder_write = (\<lambda>pending buffer. (pending @ buffer, []))\<rparr>"

definition example_options :: upload_options where
  "example_options =
     \<lparr>opt_container = ''album1'', opt_maxFileSize = Some (Fixed 15),
      opt_maxFieldsSize = 100, opt_forbidExtnames = None, opt_allowedContentTypes = None,
      opt_getFilename = None, opt_nameConflict = None, opt_acl = None\<rparr>"

definition empty_list_options :: upload_options where
  "empty_list_options = example_options\<lparr>opt_allowedContentTypes := Some (Fixed [])\<rparr>"

definition png_only_options :: upload_options where
  "png_only_options = example_options\<lparr>opt_allowedContentTypes := Some (Fixed [''image/png''])\<rparr>"

definition image_part :: multipart_part where
  "image_part = \<lparr>part_name = ''image'', part_filename = Some ''big.jpg'',
                  part_mime = Some ''image/jpeg''\<rparr>"

definition title_part :: multipart_part where
  "title_part = \<lparr>part_name = ''title'', part_filename = Some [], part_mime = None\<rparr>"

text \<open>
  Three uploads into \<open>album1\<close> with a limit of 15 bytes per file: a file part
  whose write stream fails (the disk is full) after the first buffer and whose
  second buffer exceeds the limit; a file part of 10 bytes in two buffers, up to
  the end of the part; a form field in two buffers; a form field of 101 bytes,
  over the limit of 100 bytes for the fields; a form field named \<open>toString\<close>.
\<close>

definition ENOSPC :: err where
  "ENOSPC = \<lparr>code = Some ''ENOSPC'', message = ''ENOSPC: no space left on device, write'',
              statusCode = None, status = None\<rparr>"

definition failing_upload :: "event list" where
  "failing_upload =
     [Part image_part [], PartData 0 ''0123456789'', WriterError 0 ENOSPC,
      PartData 0 ''abcdefghij'']"

definition small_upload :: "event list" where
  "small_upload = [Part image_part [], PartData 0 ''01234'', PartData 0 ''56789'', PartEnd 0]"

definition oversized_field_upload :: "event list" where
  "oversized_field_upload = [Part title_part [], PartData 0 (replicate 101 CHR ''x'')]"

definition toString_part :: multipart_part where
  "toString_part = \<lparr>part_name = ''toString'', part_filename = None, part_mime = None\<rparr>"

definition toString_upload :: "event list" where
  "toString_upload = [Part toString_part [], PartData 0 ''hello'', PartEnd 0]"

definition field_upload :: "event list" where
  "field_upload = [Part title_part [], PartData 0 ''hello '', PartData 0 ''world'', PartEnd 0]"

text \<open>
  The parent-directory reference in the words of the specification: \<open>..\<close> with the
  start of the name or a slash before it and the end of the name or a slash after it.
\<close>

definition hasDotDotSegment :: "string \<Rightarrow> bool" where
  "hasDotDotSegment name \<longleftrightarrow>
     (\<exists>pre post. name = pre @ ''..'' @ post
        \<and> (pre = [] \<or> isSlash (last pre)) \<and> (post = [] \<or> isSlash (hd post)))"

section \<open>Properties of the name validator\<close>

lemma set_namePattern: "set (namePattern p) = {CHR ''/''}"
  by (cases p) (simp_all add: namePattern_def backslash_def)

lemma takeWhile_full_length:
  "length (takeWhile P xs) = length xs \<longleftrightarrow> (\<forall>x\<in>set xs. P x)"
  by (induction xs) auto

lemma takeWhile_Nil_dropWhile: "takeWhile P xs = [] \<Longrightarrow> dropWhile P xs = xs"
  by (cases xs) (auto split: if_splits)

lemma namePattern_exec_whole:
  "(case namePattern_exec p name of
      Some (index, matched) \<Rightarrow> index = 0 \<and> length matched = length name
    | None \<Rightarrow> False) \<longleftrightarrow> name \<noteq> [] \<and> CHR ''/'' \<notin> set name"
proof (cases "name = []")
  case True
  then show ?thesis by (simp add: namePattern_exec_def)
next
  case ne: False
  let ?ex = "\<lambda>c. c = CHR ''/''"
  have exec: "namePattern_exec p name =
     (if dropWhile ?ex name = [] then None
      else Some (length (takeWhile ?ex name), takeWhile (\<lambda>c. \<not> ?ex c) (dropWhile ?ex name)))"
    unfolding namePattern_exec_def Let_def set_namePattern by simp
  show ?thesis
  proof (cases "CHR ''/'' \<in> set name")
    case False
    then have all: "\<forall>x\<in>set name. \<not> ?ex x" by auto
    with ne have tw: "takeWhile ?ex name = []" by (cases name) auto
    then have dw: "dropWhile ?ex name = name" by (rule takeWhile_Nil_dropWhile)
    have "length (takeWhile (\<lambda>c. \<not> ?ex c) name) = length name"
      using all by (simp only: takeWhile_full_length) 
    with ne False tw dw show ?thesis unfolding exec by simp
  next
    case True
    have "\<not> (case namePattern_exec p name of
      Some (index, matched) \<Rightarrow> index = 0 \<and> length matched = length name
    | None \<Rightarrow> False)"
    proof (cases "dropWhile ?ex name = []")
      case True
      then show ?thesis unfolding exec by simp
    next
      case False
      have "\<not> (length (takeWhile ?ex name) = 0 \<and>
               length (takeWhile (\<lambda>c. \<not> ?ex c) (dropWhile ?ex name)) = length name)"
      proof
        assume a: "length (takeWhile ?ex name) = 0 \<and>
               length (takeWhile (\<lambda>c. \<not> ?ex c) (dropWhile ?ex name)) = length name"
        then have "dropWhile ?ex name = name" by (simp add: takeWhile_Nil_dropWhile)
        with a have "length (takeWhile (\<lambda>c. \<not> ?ex c) name) = length name" by simp
        then have "\<forall>x\<in>set name. \<not> ?ex x" by (simp only: takeWhile_full_length)
        with True show False by auto
      qed
      with False show ?thesis unfolding exec by simp
    qed
    with True show ?thesis by simp
  qed
qed

lemma dotDotHere_iff:
  "dotDotHere s \<longleftrightarrow> (\<exists>post. s = ''..'' @ post \<and> (post = [] \<or> isSlash (hd post)))"
  by (cases s rule: dotDotHere.cases) (auto split: list.splits)

lemma dotDotAfterSlash_iff:
  "dotDotAfterSlash s \<longleftrightarrow>
     (\<exists>pre c post. s = pre @ c # ''..'' @ post \<and> isSlash c \<and> (post = [] \<or> isSlash (hd post)))"
proof (induction s)
  case Nil
  then show ?case by simp
next
  case (Cons a s)
  show ?case
  proof
    assume "dotDotAfterSlash (a # s)"
    then consider "isSlash a \<and> dotDotHere s" | "dotDotAfterSlash s" by auto
    then show "\<exists>pre c post. a # s = pre @ c # ''..'' @ post \<and> isSlash c \<and> (post = [] \<or> isSlash (hd post))"
    proof cases
      case 1
      then obtain post where "s = ''..'' @ post" "post = [] \<or> isSlash (hd post)"
        using dotDotHere_iff by blast
      with 1 show ?thesis by (intro exI[of _ "[]"] exI[of _ a] exI[of _ post]) simp
    next
      case 2
      then obtain pre c post where "s = pre @ c # ''..'' @ post" "isSlash c" "post = [] \<or> isSlash (hd post)"
        using Cons.IH by blast
      then show ?thesis by (intro exI[of _ "a # pre"] exI[of _ c] exI[of _ post]) simp
    qed
  next
    assume "\<exists>pre c post. a # s = pre @ c # ''..'' @ post \<and> isSlash c \<and> (post = [] \<or> isSlash (hd post))"
    then obtain pre c post where h: "a # s = pre @ c # ''..'' @ post" "isSlash c" "post = [] \<or> isSlash (hd post)"
      by blast
    show "dotDotAfterSlash (a # s)"
    proof (cases pre)
      case Nil
      with h have "a = c" "s = ''..'' @ post" by auto
      with h show ?thesis using dotDotHere_iff by auto
    next
      case (Cons b pre')
      with h have "s = pre' @ c # ''..'' @ post" by auto
      with h Cons.IH show ?thesis by auto
    qed
  qed
qed

lemma containsDotDotPaths_iff: "containsDotDotPaths name \<longleftrightarrow> hasDotDotSegment name"
proof
  assume "containsDotDotPaths name"
  then consider "dotDotHere name" | "dotDotAfterSlash name" by (auto simp: containsDotDotPaths_def)
  then show "hasDotDotSegment name"
  proof cases
    case 1
    then show ?thesis unfolding hasDotDotSegment_def dotDotHere_iff by (metis append_Nil)
  next
    case 2
    then obtain pre c post where "name = pre @ c # ''..'' @ post" "isSlash c" "post = [] \<or> isSlash (hd post)"
      using dotDotAfterSlash_iff by blast
    then show ?thesis unfolding hasDotDotSegment_def
      by (intro exI[of _ "pre @ [c]"] exI[of _ post]) simp
  qed
next
  assume "hasDotDotSegment name"
  then obtain pre post where h: "name = pre @ ''..'' @ post" "pre = [] \<or> isSlash (last pre)" "post = [] \<or> isSlash (hd post)"
    unfolding hasDotDotSegment_def by blast
  show "containsDotDotPaths name"
  proof (cases "pre = []")
    case True
    with h show ?thesis unfolding containsDotDotPaths_def dotDotHere_iff by auto
  next
    case False
    then have "pre = butlast pre @ [last pre]" by simp
    with h have "name = butlast pre @ last pre # ''..'' @ post" by (metis append.assoc append_Cons append_Nil)
    with h False show ?thesis unfolding containsDotDotPaths_def dotDotAfterSlash_iff by blast
  qed
qed

lemma validateName_iff:
  "fst (validateName p has_cb name) \<longleftrightarrow>
     name \<noteq> [] \<and> \<not> hasDotDotSegment name \<and> CHR ''/'' \<notin> set name"
  using namePattern_exec_whole[where p=p and name=name]
  by (auto simp: validateName_def containsDotDotPaths_iff split: option.splits)

lemma validateName_reports:
  "\<not> fst (validateName p has_cb name) \<Longrightarrow>
     \<exists>msg. snd (validateName p has_cb name) = [if has_cb then CallbackError msg else ConsoleError msg]
       \<and> str_includes msg ''Invalid name: ''"
  by (auto simp: validateName_def split: option.splits if_splits)

text \<open>
  C2 (the validator accepts exactly the non-empty single path segments without a
  parent-directory reference). On a Windows host the separator is the backslash; in
  the pattern text it escapes the slash that follows it, so the class holds the
  slash only, and a name with an embedded backslash passes. Evaluated at the name
  made of \<open>a\<close>, a backslash and \<open>b\<close>:
\<close>

theorem validateName_accepts_windows_separator:
  "validateName Win32 True [CHR ''a'', backslash, CHR ''b''] = (True, [])
   \<and> path_sep Win32 \<in> set [CHR ''a'', backslash, CHR ''b'']"
  by (simp add: validateName_def containsDotDotPaths_def isSlash_def namePattern_exec_def
      namePattern_def backslash_def)

lemma validateName_cb_irrelevant:
  "fst (validateName p a name) = fst (validateName p b name)"
  by (simp add: validateName_iff)

section \<open>Evaluation on the small storage root\<close>

lemma ex_paths:
  "path_join [''/srv/storage'', ''album1''] = ''/srv/storage/album1''"
  "path_join [''/srv/storage'', ''album2''] = ''/srv/storage/album2''"
  "path_join [''/srv/storage'', ''album1'', ''test.bin''] = ''/srv/storage/album1/test.bin''"
  "path_join [''/srv/storage/album1'', ''test.bin''] = ''/srv/storage/album1/test.bin''"
  "path_join [''/srv/storage'', ''album1'', ''missing.jpg''] = ''/srv/storage/album1/missing.jpg''"
  "path_join [''/srv/storage'', ''..'', ''etc''] = ''/srv/etc''"
  by code_simp+

lemma ex_valid:
  "fst (validateName Posix b ''album1'')" "fst (validateName Posix b ''album2'')"
  "fst (validateName Posix b ''test.bin'')" "fst (validateName Posix b ''missing.jpg'')"
  "\<not> fst (validateName Posix b ''..'')"
  by (cases b; code_simp)+

lemma ex_abs: "isAbsolute ''/srv/storage''"
  by (simp add: isAbsolute_def)

lemma gf: "getFile example_env ''/srv/storage'' ''album1'' ''test.bin''
        = Inr (File (populateMetadata (entries (example_stats IsFile 150))
                        [''container'' \<mapsto> JStr ''album1'', ''name'' \<mapsto> JStr ''test.bin'']))"
    by (simp add: getFile_def ex_valid ex_paths example_env_def)

lemma sz: "File (populateMetadata (entries (example_stats IsFile 150))
                        [''container'' \<mapsto> JStr ''album1'', ''name'' \<mapsto> JStr ''test.bin'']) ''size'' = Some (JNum 150)"
    by (simp add: File_def setProperties_def example_stats_def)

lemma ex_listing:
  "getContainers example_env ''/srv/storage'' =
     Inr [Container (populateMetadata (entries (example_stats IsDirectory 4096))
                       [''name'' \<mapsto> JStr ''album1''])]"
  "createContainer example_env ''/srv/storage'' ''album2'' =
     Inr (Container (populateMetadata (entries (example_stats IsDirectory 4096))
                       [''name'' \<mapsto> JStr ''album2'']))"
  "getContainer example_env ''/srv/storage'' ''album1'' =
     Inr (Container (populateMetadata (entries (example_stats IsDirectory 4096))
                       [''name'' \<mapsto> JStr ''album1'']))"
  "getFiles example_env ''/srv/storage'' ''album1'' =
     Inr [File (populateMetadata (entries (example_stats IsFile 150))
                  [''container'' \<mapsto> JStr ''album1'', ''name'' \<mapsto> JStr ''test.bin''])]"
  by (simp_all add: getContainers_def createContainer_def getContainer_def getFiles_def
      ex_valid ex_paths example_env_def example_stats_def)

section \<open>Properties of the provider operations\<close>

text \<open>The operations that validate refuse an invalid name whatever the filesystem holds.\<close>

lemma invalid_name_refused:
  assumes "\<not> fst (validateName Posix True name)"
  shows "createContainer env root name = Inl (invalidName True name)"
    and "getContainer env root name = Inl (invalidName True name)"
    and "getFiles env root name = Inl (invalidName True name)"
    and "getFile env root name file = Inl (invalidName True name)"
    and "fst (validateName Posix True container) \<Longrightarrow>
           getFile env root container name = Inl (invalidName True name)"
  using assms
  by (simp_all add: createContainer_def getContainer_def getFiles_def getFile_def Let_def)

text \<open>
  C3 (every operation validates each name before it builds a path or touches the
  filesystem, and fails on an invalid name). \<open>getUrl\<close> joins the names to the root
  without validating them: for the container \<open>..\<close> it returns a path outside the root.
\<close>

theorem getUrl_skips_validation:
  "getUrl ''/srv/storage'' \<lparr>url_container = ''..'', url_path = ''etc''\<rparr> = ''/srv/etc''
   \<and> \<not> fst (validateName Posix False ''..'')"
  by (simp add: getUrl_def ex_paths ex_valid)

lemma populateMetadata_other:
  "k \<noteq> ''size'' \<Longrightarrow> k \<noteq> ''atime'' \<Longrightarrow> k \<noteq> ''mtime'' \<Longrightarrow> k \<noteq> ''ctime'' \<Longrightarrow>
   populateMetadata es props k = props k"
  by (induction es arbitrary: props) auto

lemma setProperties_Some: "setProperties details k = Some v \<Longrightarrow> details k = Some v"
  by (auto simp: setProperties_def split: option.splits jsval.splits)

lemma dom_Container:
  "dom (Container (populateMetadata es [''name'' \<mapsto> n]))
     \<subseteq> {''name'', ''size'', ''atime'', ''mtime'', ''ctime''}"
proof
  fix k assume "k \<in> dom (Container (populateMetadata es [''name'' \<mapsto> n]))"
  then obtain v where "populateMetadata es [''name'' \<mapsto> n] k = Some v"
    unfolding Container_def using setProperties_Some by fastforce
  then show "k \<in> {''name'', ''size'', ''atime'', ''mtime'', ''ctime''}"
    using populateMetadata_other[of k es "[''name'' \<mapsto> n]"]
    by (cases "k = ''name''") auto
qed

lemma dom_File:
  "dom (File (populateMetadata es [''container'' \<mapsto> c, ''name'' \<mapsto> n]))
     \<subseteq> {''container'', ''name'', ''size'', ''atime'', ''mtime'', ''ctime''}"
proof
  fix k assume "k \<in> dom (File (populateMetadata es [''container'' \<mapsto> c, ''name'' \<mapsto> n]))"
  then obtain v where "populateMetadata es [''container'' \<mapsto> c, ''name'' \<mapsto> n] k = Some v"
    unfolding File_def using setProperties_Some by fastforce
  then show "k \<in> {''container'', ''name'', ''size'', ''atime'', ''mtime'', ''ctime''}"
    using populateMetadata_other[of k es "[''container'' \<mapsto> c, ''name'' \<mapsto> n]"]
    by (cases "k = ''name''"; cases "k = ''container''") (auto split: if_splits)
qed

text \<open>
  C9: every Container and File record that \<open>getContainers\<close>, \<open>createContainer\<close>,
  \<open>getContainer\<close>, \<open>getFiles\<close> and \<open>getFile\<close> produce has, besides its name (and
  the container name of a file), no field other than \<open>size\<close>, \<open>atime\<close>, \<open>mtime\<close>
  and \<open>ctime\<close>; in particular neither \<open>uid\<close> nor \<open>gid\<close>.
\<close>

theorem records_carry_public_metadata_only:
  "(\<forall>cs. getContainers env root = Inr cs \<longrightarrow>
      (\<forall>c\<in>set cs. dom c \<subseteq> {''name'', ''size'', ''atime'', ''mtime'', ''ctime''}))
   \<and> (\<forall>c. createContainer env root name = Inr c \<longrightarrow>
          dom c \<subseteq> {''name'', ''size'', ''atime'', ''mtime'', ''ctime''})
   \<and> (\<forall>c. getContainer env root name = Inr c \<longrightarrow>
          dom c \<subseteq> {''name'', ''size'', ''atime'', ''mtime'', ''ctime''})
   \<and> (\<forall>fs. getFiles env root name = Inr fs \<longrightarrow>
          (\<forall>f\<in>set fs. dom f \<subseteq> {''container'', ''name'', ''size'', ''atime'', ''mtime'', ''ctime''}))
   \<and> (\<forall>f. getFile env root name file = Inr f \<longrightarrow>
          dom f \<subseteq> {''container'', ''name'', ''size'', ''atime'', ''mtime'', ''ctime''})"
proof (intro conjI allI impI ballI)
  fix cs c assume "getContainers env root = Inr cs" "c \<in> set cs"
  then obtain es n where "c = Container (populateMetadata es [''name'' \<mapsto> n])"
    by (auto simp: getContainers_def Let_def split: sum.splits)
  then show "dom c \<subseteq> {''name'', ''size'', ''atime'', ''mtime'', ''ctime''}"
    using dom_Container by simp
next
  fix c assume "createContainer env root name = Inr c"
  then obtain es n where "c = Container (populateMetadata es [''name'' \<mapsto> n])"
    by (auto simp: createContainer_def Let_def split: sum.splits option.splits if_splits)
  then show "dom c \<subseteq> {''name'', ''size'', ''atime'', ''mtime'', ''ctime''}"
    using dom_Container by simp
next
  fix c assume "getContainer env root name = Inr c"
  then obtain es n where "c = Container (populateMetadata es [''name'' \<mapsto> n])"
    by (auto simp: getContainer_def Let_def split: sum.splits option.splits if_splits)
  then show "dom c \<subseteq> {''name'', ''size'', ''atime'', ''mtime'', ''ctime''}"
    using dom_Container by simp
next
  fix fs f assume "getFiles env root name = Inr fs" "f \<in> set fs"
  then obtain es c n where "f = File (populateMetadata es [''container'' \<mapsto> c, ''name'' \<mapsto> n])"
    by (auto simp: getFiles_def Let_def split: sum.splits if_splits)
  then show "dom f \<subseteq> {''container'', ''name'', ''size'', ''atime'', ''mtime'', ''ctime''}"
    using dom_File by simp
next
  fix f assume "getFile env root name file = Inr f"
  then obtain es c n where "f = File (populateMetadata es [''container'' \<mapsto> c, ''name'' \<mapsto> n])"
    by (auto simp: getFile_def Let_def split: sum.splits if_splits)
  then show "dom f \<subseteq> {''container'', ''name'', ''size'', ''atime'', ''mtime'', ''ctime''}"
    using dom_File by simp
qed

theorem records_carry_public_metadata_only_witness:
  "(\<exists>cs. getContainers example_env ''/srv/storage'' = Inr cs \<and> cs \<noteq> []
      \<and> (\<forall>c\<in>set cs. dom c \<subseteq> {''name'', ''size'', ''atime'', ''mtime'', ''ctime''}))
   \<and> (\<exists>c. createContainer example_env ''/srv/storage'' ''album2'' = Inr c
      \<and> dom c \<subseteq> {''name'', ''size'', ''atime'', ''mtime'', ''ctime''})
   \<and> (\<exists>c. getContainer example_env ''/srv/storage'' ''album1'' = Inr c
      \<and> dom c \<subseteq> {''name'', ''size'', ''atime'', ''mtime'', ''ctime''})
   \<and> (\<exists>fs. getFiles example_env ''/srv/storage'' ''album1'' = Inr fs \<and> fs \<noteq> []
      \<and> (\<forall>f\<in>set fs. dom f \<subseteq> {''container'', ''name'', ''size'', ''atime'', ''mtime'', ''ctime''}))
   \<and> (\<exists>f. getFile example_env ''/srv/storage'' ''album1'' ''test.bin'' = Inr f
      \<and> dom f \<subseteq> {''container'', ''name'', ''size'', ''atime'', ''mtime'', ''ctime''})"
  using records_carry_public_metadata_only [of example_env "''/srv/storage''" "''album1''" "''test.bin''"]
        records_carry_public_metadata_only [of example_env "''/srv/storage''" "''album2''" "''test.bin''"]
  by (simp add: ex_listing gf)

section \<open>Properties of the download handler\<close>

lemma zero_range: "splitOn CHR ''-'' (removeFirst ''bytes='' ''bytes=0-99'') = [''0'', ''99'']"
  "parseInt ''0'' = Num 0" "parseInt ''99'' = Num 99"
  by code_simp+

lemma provider_download_start_zero:
  assumes "fst (validateName Posix False (dp_container options))"
    and "fst (validateName Posix False (dp_remote options))"
    and "dp_start options = Some (Num 0)"
  shows "provider_download env root options =
           read_of env (path_join [root, dp_container options, dp_remote options])"
  using assms by (simp add: provider_download_def Let_def createReadStream_def)

text \<open>A range that starts after the first byte is applied.\<close>

lemma provider_download_range:
  assumes "fst (validateName Posix False (dp_container options))"
    and "fst (validateName Posix False (dp_remote options))"
    and "dp_start options = Some (Num s)" "dp_end options = Some (Num e)"
    and "0 < s" "s \<le> e" "e \<le> max_safe_integer"
    and "read_of env (path_join [root, dp_container options, dp_remote options]) = Inr content"
  shows "provider_download env root options = Inr (take (nat (e + 1 - s)) (drop (nat s) content))"
  using assms by (simp add: provider_download_def Let_def createReadStream_def)

lemma setup_zero:
  "stats ''size'' = Some (JNum n) \<Longrightarrow>
   setupPartialDownload ''bytes=0-99'' params stats res =
     (params\<lparr>dp_start := Some (Num 0), dp_end := Some (Num 99)\<rparr>,
      res\<lparr>res_status := Some 206,
          res_headers := res_headers res @
            [(''Content-Range'', HRange (Num 0) (Num 99) (Num n)),
             (''Accept-Ranges'', HText ''bytes''),
             (''Content-Length'', HNumber (Num 100))]\<rparr>)"
  by (simp add: setupPartialDownload_def zero_range Let_def num_sub_def to_double_def)

text \<open>
  C1 (a download with a byte range delivers exactly the bytes \<open>start..end\<close>; for
  \<open>bytes=0-99\<close> the first 100 bytes, not the whole file). The provider applies the
  range only when \<open>options.start\<close> is truthy, and the offset 0 is not: for the
  150-byte file of the storage root the header announces 100 bytes and the whole
  file is piped into the response.
\<close>

theorem range_from_zero_sends_whole_file:
  "res_body (dl_response (download example_env ''/srv/storage''
      (Some (range_request ''bytes=0-99'')) ''album1'' ''test.bin'')) = example_content
   \<and> length example_content = 150
   \<and> example_content \<noteq> take 100 example_content"
proof -
  let ?params = "\<lparr>dp_container = ''album1'', dp_remote = ''test.bin'',
                   dp_start = Some (Num 0), dp_end = Some (Num 99)\<rparr>"
  have rd: "provider_download example_env ''/srv/storage'' ?params = Inr example_content"
    by (simp add: provider_download_start_zero ex_valid ex_paths example_env_def)
  have "download example_env ''/srv/storage''
      (Some (range_request ''bytes=0-99'')) ''album1'' ''test.bin''
     = download_stream example_env ''/srv/storage'' ''test.bin'' ?params
         (fresh_response\<lparr>res_status := Some 206,
          res_headers := res_headers fresh_response @
            [(''Content-Range'', HRange (Num 0) (Num 99) (Num 150)),
             (''Accept-Ranges'', HText ''bytes''),
             (''Content-Length'', HNumber (Num 100))]\<rparr>)"
    unfolding download_def
    by (simp add: range_request_def or_else_def gf setup_zero[where n=150 and stats="File (populateMetadata (entries (example_stats IsFile 150)) [''container'' \<mapsto> JStr ''album1'', ''name'' \<mapsto> JStr ''test.bin''])", OF sz] path_basename_def)
  then have body: "res_body (dl_response (download example_env ''/srv/storage''
      (Some (range_request ''bytes=0-99'')) ''album1'' ''test.bin'')) = example_content"
    by (simp add: download_stream_def rd fresh_response_def)
  have len: "length example_content = 150" by (simp add: example_content_def)
  have "length (take 100 example_content) \<noteq> length example_content"
    by (simp add: example_content_def)
  then have "example_content \<noteq> take 100 example_content" by metis
  with body len show ?thesis by simp
qed

lemma run_reader_once_aux:
  "cb_calls (foldl (on_reader_event remote) c evs) =
     cb_calls c @ (if cb_live c then (case evs of [] \<Rightarrow> []
        | ReaderError e # _ \<Rightarrow> [Some (processError e remote)] | ReaderEnd # _ \<Rightarrow> [None]) else [])"
proof (induction evs arbitrary: c)
  case Nil
  then show ?case by simp
next
  case (Cons ev evs)
  show ?case by (cases ev) (simp_all add: Cons.IH)
qed

lemma run_reader_once:
  "run_reader remote evs =
     (case evs of [] \<Rightarrow> []
      | ReaderError e # _ \<Rightarrow> [Some (processError e remote)]
      | ReaderEnd # _ \<Rightarrow> [None])"
  by (simp add: run_reader_def run_reader_once_aux)

lemma run_reader_at_most_once: "length (run_reader remote evs) \<le> 1"
  by (simp add: run_reader_once split: list.splits reader_event.splits)

text \<open>
  C6 (the completion callback is invoked exactly once for every invocation of
  \<open>download\<close>). Without a request object the handler returns at once and never
  invokes the callback.
\<close>

theorem download_without_request_never_calls_back:
  "dl_calls (download env root None container file) = []"
  by (simp add: download_def)

lemma joinWith_hd: "as \<noteq> [] \<Longrightarrow> hd as \<noteq> [] \<Longrightarrow> joinWith d as \<noteq> [] \<and> hd (joinWith d as) = hd (hd as)"
  by (induction d as rule: joinWith.induct) auto

lemma path_normalize_absolute:
  "isAbsolute path \<Longrightarrow> isAbsolute (path_normalize path)"
  by (auto simp: path_normalize_def isAbsolute_def Let_def split: list.splits)

lemma path_join_absolute:
  assumes "isAbsolute root"
  shows "isAbsolute (path_join (root # rest))"
proof -
  from assms have ne: "root \<noteq> []" by (auto simp: isAbsolute_def)
  then have f: "filter (\<lambda>a. a \<noteq> []) (root # rest) = root # filter (\<lambda>a. a \<noteq> []) rest" by simp
  have "isAbsolute (joinWith ''/'' (root # filter (\<lambda>a. a \<noteq> []) rest))"
    using joinWith_hd[of "root # filter (\<lambda>a. a \<noteq> []) rest" "''/''"] ne assms
    by (auto simp: isAbsolute_def split: list.splits)
  then show ?thesis unfolding path_join_def f by (simp add: path_normalize_absolute)
qed

lemma str_includes_iff: "str_includes s sub \<longleftrightarrow> (\<exists>pre post. s = pre @ sub @ post)"
proof (induction s)
  case Nil
  then show ?case by auto
next
  case (Cons c cs)
  show ?case
  proof
    assume "str_includes (c # cs) sub"
    then consider "take (length sub) (c # cs) = sub" | "str_includes cs sub" by auto
    then show "\<exists>pre post. c # cs = pre @ sub @ post"
    proof cases
      case 1
      then have "c # cs = [] @ sub @ drop (length sub) (c # cs)"
        by (metis append_Nil append_take_drop_id)
      then show ?thesis by blast
    next
      case 2
      then obtain pre post where "cs = pre @ sub @ post" using Cons.IH by blast
      then have "c # cs = (c # pre) @ sub @ post" by simp
      then show ?thesis by blast
    qed
  next
    assume "\<exists>pre post. c # cs = pre @ sub @ post"
    then obtain pre post where h: "c # cs = pre @ sub @ post" by blast
    show "str_includes (c # cs) sub"
    proof (cases pre)
      case Nil
      with h have "take (length sub) (c # cs) = sub" by simp
      then show ?thesis by simp
    next
      case (Cons a pre')
      with h have "cs = pre' @ sub @ post" by simp
      then show ?thesis using Cons.IH by auto
    qed
  qed
qed

lemma str_includes_set: "str_includes s sub \<Longrightarrow> set sub \<subseteq> set s"
  by (auto simp: str_includes_iff)

lemma not_found_message:
  assumes "fst (validateName Posix b f)" "isAbsolute p"
  shows "str_includes (''File not found: '' @ f) f \<and> \<not> str_includes (''File not found: '' @ f) p"
proof
  show "str_includes (''File not found: '' @ f) f"
    unfolding str_includes_iff by (metis append_Nil2)
  from assms(1) have "CHR ''/'' \<notin> set f" using validateName_iff by blast
  then have no: "CHR ''/'' \<notin> set (''File not found: '' @ f)" by simp
  from assms(2) have "CHR ''/'' \<in> set p" by (auto simp: isAbsolute_def split: list.splits)
  with no show "\<not> str_includes (''File not found: '' @ f) p"
    using str_includes_set by blast
qed

text \<open>
  C7: when the file of a download does not exist (the backend answers \<open>ENOENT\<close>),
  the callback receives exactly one error; it has status code 404, and its message
  contains the requested file name and does not contain the absolute path of the
  file under the storage root.
\<close>

theorem download_not_found:
  assumes root: "isAbsolute root"
    and c: "c = or_else container (param_container r)" "fst (validateName Posix False c)"
    and f: "f = or_else file (param_file r)" "fst (validateName Posix False f)"
    and st: "stat_of env (path_join [root, c, f]) = Inl e1" "code e1 = Some ''ENOENT''"
    and rd: "read_of env (path_join [root, c, f]) = Inl e2" "code e2 = Some ''ENOENT''"
  shows "\<exists>e. dl_calls (download env root (Some r) container file) = [Some e]
      \<and> statusCode e = Some 404 \<and> status e = Some 404
      \<and> str_includes (message e) f
      \<and> \<not> str_includes (message e) (path_join [root, c, f])"
proof -
  have abs: "isAbsolute (path_join [root, c, f])" using root by (rule path_join_absolute)
  note msg = not_found_message[OF f(2) abs]
  have vc: "fst (validateName Posix True c)" "fst (validateName Posix True f)"
    using c(2) f(2) validateName_cb_irrelevant by blast+
  have pe: "\<And>e. code e = Some ''ENOENT'' \<Longrightarrow>
      statusCode (processError e f) = Some 404 \<and> status (processError e f) = Some 404
      \<and> message (processError e f) = ''File not found: '' @ f"
    by (simp add: processError_def)
  show ?thesis
  proof (cases "(case range_header r of None \<Rightarrow> [] | Some h \<Rightarrow> h) = []")
    case True
    then have "dl_calls (download env root (Some r) container file) = [Some (processError e2 f)]"
      using c f rd
      by (simp add: download_def Let_def download_stream_def provider_download_def
          createReadStream_def run_reader_def)
    then show ?thesis using pe[OF rd(2)] msg by simp
  next
    case False
    then have "dl_calls (download env root (Some r) container file) = [Some (processError e1 f)]"
      using c f st vc
      by (simp add: download_def Let_def getFile_def)
    then show ?thesis using pe[OF st(2)] msg by simp
  qed
qed

theorem download_not_found_witness:
  "isAbsolute ''/srv/storage''
   \<and> fst (validateName Posix False ''album1'') \<and> fst (validateName Posix False ''missing.jpg'')
   \<and> stat_of example_env (path_join [''/srv/storage'', ''album1'', ''missing.jpg''])
       = Inl (ENOENT ''stat'' ''/srv/storage/album1/missing.jpg'')
   \<and> read_of example_env (path_join [''/srv/storage'', ''album1'', ''missing.jpg''])
       = Inl (ENOENT ''open'' ''/srv/storage/album1/missing.jpg'')
   \<and> (\<exists>e. dl_calls (download example_env ''/srv/storage'' (Some plain_request)
                ''album1'' ''missing.jpg'') = [Some e]
      \<and> statusCode e = Some 404 \<and> status e = Some 404
      \<and> str_includes (message e) ''missing.jpg''
      \<and> \<not> str_includes (message e) ''/srv/storage/album1/missing.jpg'')"
proof -
  have st: "stat_of example_env (path_join [''/srv/storage'', ''album1'', ''missing.jpg''])
       = Inl (ENOENT ''stat'' ''/srv/storage/album1/missing.jpg'')"
    by (simp add: ex_paths example_env_def)
  have rd: "read_of example_env (path_join [''/srv/storage'', ''album1'', ''missing.jpg''])
       = Inl (ENOENT ''open'' ''/srv/storage/album1/missing.jpg'')"
    by (simp add: ex_paths example_env_def)
  have c: "''album1'' = or_else ''album1'' (param_container plain_request)"
    and f: "''missing.jpg'' = or_else ''missing.jpg'' (param_file plain_request)"
    by (simp_all add: or_else_def)
  have code: "code (ENOENT ''stat'' ''/srv/storage/album1/missing.jpg'') = Some ''ENOENT''"
     "code (ENOENT ''open'' ''/srv/storage/album1/missing.jpg'') = Some ''ENOENT''"
    by (simp_all add: ENOENT_def)
  from download_not_found [OF ex_abs c ex_valid(1) f ex_valid(4) st code(1) rd code(2)]
  show ?thesis using st rd by (simp add: ex_abs ex_valid ex_paths)
qed

section \<open>Properties of the upload handler\<close>

subsection \<open>What reporting an error leaves unchanged\<close>

lemma on_form_error_keeps:
  "f_parts (on_form_error opts s) = f_parts s"
  "f_fields (on_form_error opts s) = f_fields s"
  "f_files (on_form_error opts s) = f_files s"
  "f_flushing (on_form_error opts s) = f_flushing s"
  "f_fieldsSize (on_form_error opts s) = f_fieldsSize s"
  "f_error (on_form_error opts s) = f_error s"
  "f_ended (on_form_error opts s) = f_ended s"
  "f_callbacks (on_form_error opts s) = f_callbacks s"
  "f_writer (on_form_error opts s) = f_writer s"
  "f_filename (on_form_error opts s) = f_filename s"
  "length (f_writers (on_form_error opts s)) = length (f_writers s)"
  by (auto simp: on_form_error_def Let_def split: option.splits)

lemma on_form_error_writers:
  "w < length (f_writers s) \<Longrightarrow>
   \<exists>d. f_writers (on_form_error opts s) ! w = (f_writers s ! w)\<lparr>w_destroyed := d\<rparr>
       \<and> (w_destroyed (f_writers s ! w) \<longrightarrow> d)"
proof -
  assume w: "w < length (f_writers s)"
  have same: "f_writers s ! w = (f_writers s ! w)\<lparr>w_destroyed := w_destroyed (f_writers s ! w)\<rparr>"
    by simp
  show ?thesis
  proof (cases "f_writer s")
    case None
    then have "f_writers (on_form_error opts s) = f_writers s"
      by (auto simp: on_form_error_def Let_def split: option.splits)
    with same show ?thesis by metis
  next
    case (Some v)
    show ?thesis
    proof (cases "v < length (f_writers s) \<and> \<not> w_destroyed (f_writers s ! v)")
      case False
      with Some have "f_writers (on_form_error opts s) = f_writers s"
        by (auto simp: on_form_error_def Let_def split: option.splits)
      with same show ?thesis by metis
    next
      case True
      with Some have eq: "f_writers (on_form_error opts s)
          = (f_writers s)[v := (f_writers s ! v)\<lparr>w_destroyed := True\<rparr>]"
        by (auto simp: on_form_error_def Let_def split: option.splits)
      show ?thesis
      proof (cases "v = w")
        case True
        with eq w show ?thesis by auto
      next
        case False
        with eq w have "f_writers (on_form_error opts s) ! w = f_writers s ! w" by simp
        with same show ?thesis by metis
      qed
    qed
  qed
qed

lemma on_form_error_written:
  "map w_written (f_writers (on_form_error opts s)) = map w_written (f_writers s)"
proof (rule nth_equalityI)
  show "length (map w_written (f_writers (on_form_error opts s))) = length (map w_written (f_writers s))"
    by (simp add: on_form_error_keeps)
next
  fix i assume "i < length (map w_written (f_writers (on_form_error opts s)))"
  then have i: "i < length (f_writers s)" by (simp add: on_form_error_keeps)
  from on_form_error_writers[OF i, of opts] obtain d where
    "f_writers (on_form_error opts s) ! i = (f_writers s ! i)\<lparr>w_destroyed := d\<rparr>" by blast
  then show "map w_written (f_writers (on_form_error opts s)) ! i = map w_written (f_writers s) ! i"
    using i by (simp add: on_form_error_keeps)
qed

lemma emit_error_keeps:
  "f_parts (emit_error opts e s) = f_parts s"
  "f_fields (emit_error opts e s) = f_fields s"
  "f_files (emit_error opts e s) = f_files s"
  "f_flushing (emit_error opts e s) = f_flushing s"
  "f_fieldsSize (emit_error opts e s) = f_fieldsSize s"
  "f_error (emit_error opts e s) = f_error s"
  "f_ended (emit_error opts e s) = f_ended s"
  "f_writer (emit_error opts e s) = f_writer s"
  "f_filename (emit_error opts e s) = f_filename s"
  "f_callbacks (emit_error opts e s) = f_callbacks s @ [CbError e]"
  "length (f_writers (emit_error opts e s)) = length (f_writers s)"
  "map w_written (f_writers (emit_error opts e s)) = map w_written (f_writers s)"
  by (simp_all add: emit_error_def Let_def on_form_error_keeps on_form_error_written)

lemma emit_error_writers:
  "w < length (f_writers s) \<Longrightarrow>
   \<exists>d. f_writers (emit_error opts e s) ! w = (f_writers s ! w)\<lparr>w_destroyed := d\<rparr>
       \<and> (w_destroyed (f_writers s ! w) \<longrightarrow> d)"
  using on_form_error_writers[of w s opts] by (simp add: emit_error_def Let_def)

lemma form_error_keeps:
  "f_parts (form_error opts e s) = f_parts s"
  "f_fields (form_error opts e s) = f_fields s"
  "f_files (form_error opts e s) = f_files s"
  "f_flushing (form_error opts e s) = f_flushing s"
  "f_fieldsSize (form_error opts e s) = f_fieldsSize s"
  "f_ended (form_error opts e s) = f_ended s"
  "f_writer (form_error opts e s) = f_writer s"
  "f_filename (form_error opts e s) = f_filename s"
  "length (f_writers (form_error opts e s)) = length (f_writers s)"
  "map w_written (f_writers (form_error opts e s)) = map w_written (f_writers s)"
  by (simp_all add: form_error_def emit_error_keeps)

lemma form_error_writers:
  "w < length (f_writers s) \<Longrightarrow>
   \<exists>d. f_writers (form_error opts e s) ! w = (f_writers s ! w)\<lparr>w_destroyed := d\<rparr>
       \<and> (w_destroyed (f_writers s ! w) \<longrightarrow> d)"
proof (cases "f_error s \<noteq> None \<or> f_ended s")
  case True
  assume "w < length (f_writers s)"
  from True show ?thesis unfolding form_error_def
    by (intro exI[of _ "w_destroyed (f_writers s ! w)"]) simp
next
  case False
  assume "w < length (f_writers s)"
  then show ?thesis using False emit_error_writers[of w "s\<lparr>f_error := Some e\<rparr>" opts e]
    by (simp add: form_error_def)
qed

lemma form_error_first:
  "f_error s = None \<Longrightarrow> \<not> f_ended s \<Longrightarrow>
   f_error (form_error opts e s) = Some e
   \<and> f_callbacks (form_error opts e s) = f_callbacks s @ [CbError e]"
  by (simp add: form_error_def emit_error_keeps)

subsection \<open>Content types\<close>

lemma named_file_type: "uf_type (named_file lib opts part uuid) = part_mime part"
  by (simp add: named_file_def initial_file_def Let_def split: option.splits)

text \<open>
  C8, as amended: when the list of allowed content types of a file part (given as a
  list, or returned by the function) is not empty and does not hold the declared
  content type of the part, \<open>handlePart\<close> opens no write stream and no byte is
  written to the backend, then or when a buffer of the part arrives; unless the
  extension of the part was already refused, the error recorded and passed to the
  callback (no error being recorded before) is the content-type error.
\<close>

theorem disallowed_content_type_rejected:
  assumes "part_filename part = Some filename" and "filename \<noteq> []"
    and "allowed_types opts (named_file lib opts part uuid) = allowed"
    and "allowed \<noteq> []"
    and "case part_mime part of Some t \<Rightarrow> t \<notin> set allowed | None \<Rightarrow> True"
  shows "f_parts (handlePart lib opts part uuid s) = f_parts s @ [RejectedPart]
     \<and> map w_written (f_writers (handlePart lib opts part uuid s)) = map w_written (f_writers s)
     \<and> (\<forall>buffer. on_part_data lib opts (length (f_parts s)) buffer
                      (handlePart lib opts part uuid s) = handlePart lib opts part uuid s)
     \<and> (f_error s = None \<and> \<not> f_ended s \<and> \<not> forbidden_extname lib opts (path_extname lib filename)
          \<longrightarrow> f_error (handlePart lib opts part uuid s)
                = Some (ContentTypeNotAllowed (part_mime part) allowed)
            \<and> f_callbacks (handlePart lib opts part uuid s)
                = f_callbacks s @ [CbError (ContentTypeNotAllowed (part_mime part) allowed)])"
proof -
  have rej: "type_rejected opts (named_file lib opts part uuid)"
    using assms(3-5) by (auto simp: type_rejected_def named_file_type)
  let ?s1 = "s\<lparr>f_flushing := f_flushing s + 1,
               f_filename := Some (uf_name (named_file lib opts part uuid))\<rparr>"
  let ?ext = "ExtnameNotAllowed (path_extname lib filename) (the (opt_forbidExtnames opts))"
  let ?ct = "ContentTypeNotAllowed (part_mime part) allowed"
  have hp: "handlePart lib opts part uuid s =
      (if forbidden_extname lib opts (path_extname lib filename)
       then (form_error opts ?ext ?s1)\<lparr>f_parts := f_parts ?s1 @ [RejectedPart]\<rparr>
       else (form_error opts ?ct ?s1)\<lparr>f_parts := f_parts ?s1 @ [RejectedPart]\<rparr>)"
    using assms(1-3) rej by (simp add: handlePart_def Let_def named_file_type)
  have parts: "f_parts (handlePart lib opts part uuid s) = f_parts s @ [RejectedPart]"
    unfolding hp by simp
  have written: "map w_written (f_writers (handlePart lib opts part uuid s)) = map w_written (f_writers s)"
    unfolding hp by (simp add: form_error_keeps)
  have err: "f_error s = None \<and> \<not> f_ended s \<and> \<not> forbidden_extname lib opts (path_extname lib filename)
          \<longrightarrow> f_error (handlePart lib opts part uuid s) = Some ?ct
            \<and> f_callbacks (handlePart lib opts part uuid s) = f_callbacks s @ [CbError ?ct]"
    unfolding hp using form_error_first[of ?s1 opts ?ct] by simp
  have data: "\<forall>buffer. on_part_data lib opts (length (f_parts s)) buffer
                      (handlePart lib opts part uuid s) = handlePart lib opts part uuid s"
    by (simp add: on_part_data_def parts)
  from parts written data err show ?thesis by blast
qed

theorem disallowed_content_type_rejected_witness:
  "part_filename image_part = Some ''big.jpg'' \<and> ''big.jpg'' \<noteq> []
   \<and> allowed_types png_only_options (named_file example_lib png_only_options image_part [])
       = [''image/png'']
   \<and> (case part_mime image_part of Some t \<Rightarrow> t \<notin> set [''image/png''] | None \<Rightarrow> True)
   \<and> f_error new_form = None \<and> \<not> f_ended new_form
   \<and> \<not> forbidden_extname example_lib png_only_options (path_extname example_lib ''big.jpg'')
   \<and> f_parts (handlePart example_lib png_only_options image_part [] new_form) = [RejectedPart]
   \<and> f_writers (handlePart example_lib png_only_options image_part [] new_form) = []
   \<and> f_error (handlePart example_lib png_only_options image_part [] new_form)
       = Some (ContentTypeNotAllowed (Some ''image/jpeg'') [''image/png''])
   \<and> f_callbacks (handlePart example_lib png_only_options image_part [] new_form)
       = [CbError (ContentTypeNotAllowed (Some ''image/jpeg'') [''image/png''])]"
proof -
  have a: "part_filename image_part = Some ''big.jpg''" "''big.jpg'' \<noteq> []"
    "allowed_types png_only_options (named_file example_lib png_only_options image_part [])
       = [''image/png'']"
    "[''image/png''] \<noteq> ([] :: string list)"
    "case part_mime image_part of Some t \<Rightarrow> t \<notin> set [''image/png''] | None \<Rightarrow> True"
    by code_simp+
  have b: "f_error new_form = None" "\<not> f_ended new_form"
    "\<not> forbidden_extname example_lib png_only_options (path_extname example_lib ''big.jpg'')"
    "part_mime image_part = Some ''image/jpeg''"
    "f_parts new_form = []" "f_writers new_form = []" "f_callbacks new_form = []"
    by code_simp+
  from disallowed_content_type_rejected [OF a, of new_form] a b
  show ?thesis by simp
qed

text \<open>
  C8 as stated includes the empty list. With \<open>allowedContentTypes: []\<close> the check
  is skipped (\<open>allowedContentTypes.length !== 0\<close>): a part of type \<open>image/jpeg\<close> is
  accepted and its bytes reach the write stream.
\<close>

theorem empty_allowed_list_accepts_any_type:
  "opt_allowedContentTypes empty_list_options = Some (Fixed [])
   \<and> part_mime image_part = Some ''image/jpeg'' \<and> ''image/jpeg'' \<notin> set ([] :: string list)
   \<and> f_error (run example_lib empty_list_options new_form
                 [Part image_part [], PartData 0 ''0123456789'']) = None
   \<and> f_callbacks (run example_lib empty_list_options new_form
                 [Part image_part [], PartData 0 ''0123456789'']) = []
   \<and> map w_written (f_writers (run example_lib empty_list_options new_form
                 [Part image_part [], PartData 0 ''0123456789''])) = [''0123456789'']"
proof -
  have "opt_allowedContentTypes empty_list_options = Some (Fixed [])"
    by (simp add: empty_list_options_def)
  moreover have "part_mime image_part = Some ''image/jpeg''"
    by (simp add: image_part_def)
  moreover have "f_error (run example_lib empty_list_options new_form
                 [Part image_part [], PartData 0 ''0123456789'']) = None"
    by code_simp
  moreover have "f_callbacks (run example_lib empty_list_options new_form
                 [Part image_part [], PartData 0 ''0123456789'']) = []"
    by code_simp
  moreover have "map w_written (f_writers (run example_lib empty_list_options new_form
                 [Part image_part [], PartData 0 ''0123456789''])) = [''0123456789'']"
    by code_simp
  ultimately show ?thesis by simp
qed

subsection \<open>Form fields\<close>

lemma run_append: "run lib opts s (xs @ ys) = run lib opts (run lib opts s xs) ys"
  by (induction xs arbitrary: s) auto

lemma field_data_run:
  assumes "p < length (f_parts s)" "f_parts s ! p = FieldPart fd"
    and "f_fieldsSize s + length (concat bs) \<le> opt_maxFieldsSize opts"
  shows "\<exists>fd'. f_parts (run lib opts s (map (PartData p) bs)) ! p = FieldPart fd'
      \<and> fd_name fd' = fd_name fd
      \<and> fd_value fd' = fd_value fd @ decode_all lib (fd_pending fd) bs
      \<and> length (f_parts (run lib opts s (map (PartData p) bs))) = length (f_parts s)
      \<and> f_fields (run lib opts s (map (PartData p) bs)) = f_fields s
      \<and> f_files (run lib opts s (map (PartData p) bs)) = f_files s
      \<and> f_writers (run lib opts s (map (PartData p) bs)) = f_writers s
      \<and> f_flushing (run lib opts s (map (PartData p) bs)) = f_flushing s
      \<and> f_callbacks (run lib opts s (map (PartData p) bs)) = f_callbacks s"
  using assms
proof (induction bs arbitrary: s fd)
  case Nil
  then show ?case by simp
next
  case (Cons b bs)
  obtain decoded pending where dw: "decoder_write lib (fd_pending fd) b = (decoded, pending)"
    by (cases "decoder_write lib (fd_pending fd) b")
  let ?fd1 = "fd\<lparr>fd_value := fd_value fd @ decoded, fd_pending := pending\<rparr>"
  let ?s1 = "s\<lparr>f_fieldsSize := f_fieldsSize s + length b,
               f_parts := (f_parts s)[p := FieldPart ?fd1]\<rparr>"
  have within: "f_fieldsSize s + length b \<le> opt_maxFieldsSize opts"
    using Cons.prems(3) by simp
  have st: "step lib opts s (PartData p b) = ?s1"
    using Cons.prems(2) within dw by (simp add: on_part_data_def Let_def)
  have p1: "p < length (f_parts ?s1)" "f_parts ?s1 ! p = FieldPart ?fd1"
    using Cons.prems(1) by simp_all
  have lim: "f_fieldsSize ?s1 + length (concat bs) \<le> opt_maxFieldsSize opts"
    using Cons.prems(3) by simp
  from Cons.IH[OF p1 lim] show ?case
    unfolding list.map run.simps st using dw by simp
qed

text \<open>For every other name, the value is appended.\<close>

lemma push_value_own:
  "k \<notin> set object_prototype_keys \<Longrightarrow> push_value k v obj = Some (push_own k v obj)"
  by (simp add: push_value_def)

text \<open>
  C10, as the handler has it: a part without a file name or with the empty file
  name is a form field: no write stream is opened and the count of files being
  flushed does not change; when the field data received stays within
  \<open>maxFieldsSize\<close>, and the name of the part is not one that every object
  inherits, the text decoded from its buffers, in order, is appended to the values
  of \<open>fields[name]\<close> at the end of the part, while \<open>files\<close> does not change. A
  part with a non-empty file name is never a form field and counts as a file being
  flushed.
\<close>

theorem empty_filename_is_form_field:
  "(part_filename part = None \<or> part_filename part = Some [] \<longrightarrow>
      f_parts (handlePart lib opts part uuid s)
        = f_parts s @ [FieldPart \<lparr>fd_name = part_name part, fd_value = [], fd_pending = [],
                                   fd_ended = False\<rparr>]
      \<and> f_writers (handlePart lib opts part uuid s) = f_writers s
      \<and> f_flushing (handlePart lib opts part uuid s) = f_flushing s
      \<and> (f_fieldsSize s + length (concat buffers) \<le> opt_maxFieldsSize opts
           \<and> part_name part \<notin> set object_prototype_keys \<longrightarrow>
           (let p = length (f_parts s);
                s' = run lib opts s (Part part uuid # map (PartData p) buffers @ [PartEnd p])
            in f_fields s' = push_own (part_name part) (decode_all lib [] buffers) (f_fields s)
               \<and> f_writers s' = f_writers s \<and> f_files s' = f_files s
               \<and> f_flushing s' = f_flushing s \<and> f_callbacks s' = f_callbacks s)))
   \<and> ((\<exists>filename. part_filename part = Some filename \<and> filename \<noteq> []) \<longrightarrow>
        f_flushing (handlePart lib opts part uuid s) = f_flushing s + 1
        \<and> (\<forall>fd. last (f_parts (handlePart lib opts part uuid s)) \<noteq> FieldPart fd))"
proof (intro conjI impI)
  assume fld: "part_filename part = None \<or> part_filename part = Some []"
  let ?fd = "\<lparr>fd_name = part_name part, fd_value = [], fd_pending = [], fd_ended = False\<rparr>"
  have hp: "handlePart lib opts part uuid s = s\<lparr>f_parts := f_parts s @ [FieldPart ?fd]\<rparr>"
    using fld by (auto simp: handlePart_def)
  show "f_parts (handlePart lib opts part uuid s) = f_parts s @ [FieldPart ?fd]"
    "f_writers (handlePart lib opts part uuid s) = f_writers s"
    "f_flushing (handlePart lib opts part uuid s) = f_flushing s"
    unfolding hp by simp_all
  assume "f_fieldsSize s + length (concat buffers) \<le> opt_maxFieldsSize opts
           \<and> part_name part \<notin> set object_prototype_keys"
  then have lim: "f_fieldsSize s + length (concat buffers) \<le> opt_maxFieldsSize opts"
    and own: "part_name part \<notin> set object_prototype_keys" by simp_all
  let ?p = "length (f_parts s)"
  let ?s0 = "s\<lparr>f_parts := f_parts s @ [FieldPart ?fd]\<rparr>"
  let ?s1 = "run lib opts ?s0 (map (PartData ?p) buffers)"
  have "?p < length (f_parts ?s0)" "f_parts ?s0 ! ?p = FieldPart ?fd"
    "f_fieldsSize ?s0 + length (concat buffers) \<le> opt_maxFieldsSize opts"
    using lim by simp_all
  from field_data_run[OF this, of lib] obtain fd' where
    d: "f_parts ?s1 ! ?p = FieldPart fd'" "fd_name fd' = part_name part"
       "fd_value fd' = decode_all lib [] buffers"
       "f_fields ?s1 = f_fields s" "f_files ?s1 = f_files s" "f_writers ?s1 = f_writers s"
       "f_flushing ?s1 = f_flushing s" "f_callbacks ?s1 = f_callbacks s"
    by auto
  have run_eq: "run lib opts s (Part part uuid # map (PartData ?p) buffers @ [PartEnd ?p])
      = on_part_end lib ?p ?s1"
    by (simp add: run_append hp)
  show "let p = length (f_parts s);
            s' = run lib opts s (Part part uuid # map (PartData p) buffers @ [PartEnd p])
        in f_fields s' = push_own (part_name part) (decode_all lib [] buffers) (f_fields s)
           \<and> f_writers s' = f_writers s \<and> f_files s' = f_files s
           \<and> f_flushing s' = f_flushing s \<and> f_callbacks s' = f_callbacks s"
    unfolding Let_def run_eq using d own by (simp add: on_part_end_def push_value_own)
next
  assume "\<exists>filename. part_filename part = Some filename \<and> filename \<noteq> []"
  then obtain filename where fn: "part_filename part = Some filename" "filename \<noteq> []" by blast
  then show "f_flushing (handlePart lib opts part uuid s) = f_flushing s + 1"
    by (simp add: handlePart_def Let_def form_error_keeps)
  from fn show "\<forall>fd. last (f_parts (handlePart lib opts part uuid s)) \<noteq> FieldPart fd"
    by (simp add: handlePart_def Let_def form_error_keeps)
qed

theorem empty_filename_is_form_field_witness:
  "part_filename title_part = Some []
   \<and> f_fieldsSize new_form + length (concat [''hello '', ''world'']) \<le> opt_maxFieldsSize example_options
   \<and> part_name title_part \<notin> set object_prototype_keys
   \<and> f_fields (run example_lib example_options new_form field_upload) = [(''title'', [''hello world''])]
   \<and> f_writers (run example_lib example_options new_form field_upload) = []
   \<and> f_files (run example_lib example_options new_form field_upload) = []
   \<and> f_flushing (run example_lib example_options new_form field_upload) = 0
   \<and> part_filename image_part = Some ''big.jpg''
   \<and> f_flushing (handlePart example_lib example_options image_part [] new_form) = 1
   \<and> (\<forall>fd. last (f_parts (handlePart example_lib example_options image_part [] new_form))
             \<noteq> FieldPart fd)"
proof -
  have a: "part_filename title_part = Some []"
    "f_fieldsSize new_form + length (concat [''hello '', ''world'']) \<le> opt_maxFieldsSize example_options"
    "part_filename image_part = Some ''big.jpg''"
    "part_name title_part \<notin> set object_prototype_keys"
    by code_simp+
  have b: "Part title_part [] # map (PartData (length (f_parts new_form))) [''hello '', ''world'']
             @ [PartEnd (length (f_parts new_form))] = field_upload"
    by (simp add: field_upload_def new_form_def)
  have c: "push_own (part_name title_part) (decode_all example_lib [] [''hello '', ''world''])
             (f_fields new_form) = [(''title'', [''hello world''])]"
    "f_writers new_form = []" "f_files new_form = []" "f_flushing new_form = 0"
    by code_simp+
  note on_field = empty_filename_is_form_field [of title_part example_lib example_options "[]"
        new_form "[''hello '', ''world'']"]
  note on_file = empty_filename_is_form_field [of image_part example_lib example_options "[]"
        new_form "[]"]
  from on_field a(1,2,4) have
    "let p = length (f_parts new_form);
         s' = run example_lib example_options new_form
                (Part title_part [] # map (PartData p) [''hello '', ''world''] @ [PartEnd p])
     in f_fields s' = push_own (part_name title_part)
                        (decode_all example_lib [] [''hello '', ''world'']) (f_fields new_form)
        \<and> f_writers s' = f_writers new_form \<and> f_files s' = f_files new_form
        \<and> f_flushing s' = f_flushing new_form \<and> f_callbacks s' = f_callbacks new_form"
    by blast
  then have f: "f_fields (run example_lib example_options new_form field_upload)
        = [(''title'', [''hello world''])]
      \<and> f_writers (run example_lib example_options new_form field_upload) = []
      \<and> f_files (run example_lib example_options new_form field_upload) = []
      \<and> f_flushing (run example_lib example_options new_form field_upload) = 0"
    unfolding Let_def b c by blast
  from on_file a(3) have g: "f_flushing (handlePart example_lib example_options image_part [] new_form)
        = f_flushing new_form + 1
      \<and> (\<forall>fd. last (f_parts (handlePart example_lib example_options image_part [] new_form))
             \<noteq> FieldPart fd)"
    by blast
  from a f g c(4) show ?thesis by simp
qed

text \<open>
  C10, as it is worded, claims the accumulation for every part with an empty file
  name. The form accepts field data only up to \<open>maxFieldsSize\<close> (here 100 bytes):
  the buffer of 101 bytes of the field \<open>title\<close> is not decoded, the form records
  the error, nothing is stored under \<open>fields.title\<close>, and the end of the part
  never follows.
\<close>

theorem oversized_field_is_not_accumulated:
  "part_filename title_part = Some []
   \<and> possible example_lib example_options new_form oversized_field_upload
   \<and> f_fields (run example_lib example_options new_form oversized_field_upload) = []
   \<and> f_parts (run example_lib example_options new_form oversized_field_upload)
       = [FieldPart \<lparr>fd_name = ''title'', fd_value = [], fd_pending = [], fd_ended = False\<rparr>]
   \<and> f_error (run example_lib example_options new_form oversized_field_upload)
       = Some (MaxFieldsSizeExceeded 101)
   \<and> \<not> enabled (run example_lib example_options new_form oversized_field_upload) (PartEnd 0)"
  by code_simp

text \<open>
  A field named like a property that \<open>{}\<close> inherits: \<open>fields.toString\<close> is a
  function, and \<open>values.push\<close> throws in the \<open>end\<close> listener of the part.
\<close>

lemma field_named_toString_throws:
  "possible example_lib example_options new_form toString_upload
   \<and> f_thrown (run example_lib example_options new_form toString_upload)
   \<and> f_fields (run example_lib example_options new_form toString_upload) = []"
  by code_simp

subsection \<open>The invariant of an upload\<close>

lemma writers_ok_frame:
  assumes "writers_ok lib s" and "f_parts s' = f_parts s"
    and "length (f_writers s') = length (f_writers s)"
    and "\<And>w. w < length (f_writers s) \<Longrightarrow>
           w_part (f_writers s' ! w) = w_part (f_writers s ! w)
           \<and> (w_ended (f_writers s' ! w) \<longrightarrow> w_ended (f_writers s ! w))"
  shows "writers_ok lib s'"
  using assms unfolding writers_ok_def by (metis (no_types, lifting))

lemma parts_ok_frame:
  assumes "parts_ok s" and "f_parts s' = f_parts s"
    and "length (f_writers s') = length (f_writers s)"
    and "\<And>w. w < length (f_writers s) \<Longrightarrow> w_part (f_writers s' ! w) = w_part (f_writers s ! w)"
  shows "parts_ok s'"
  using assms unfolding parts_ok_def by (metis (no_types, lifting))

lemma form_error_ok:
  assumes "writers_ok lib s" "parts_ok s"
  shows "writers_ok lib (form_error opts e s)" "parts_ok (form_error opts e s)"
proof -
  have w: "\<And>w. w < length (f_writers s) \<Longrightarrow>
           w_part (f_writers (form_error opts e s) ! w) = w_part (f_writers s ! w)
           \<and> (w_ended (f_writers (form_error opts e s) ! w) \<longrightarrow> w_ended (f_writers s ! w))"
  proof -
    fix w assume "w < length (f_writers s)"
    from form_error_writers[OF this, of opts e] obtain d where
      "f_writers (form_error opts e s) ! w = (f_writers s ! w)\<lparr>w_destroyed := d\<rparr>" by blast
    then show "w_part (f_writers (form_error opts e s) ! w) = w_part (f_writers s ! w)
           \<and> (w_ended (f_writers (form_error opts e s) ! w) \<longrightarrow> w_ended (f_writers s ! w))"
      by simp
  qed
  show "writers_ok lib (form_error opts e s)"
    by (rule writers_ok_frame[OF assms(1)]) (simp_all add: form_error_keeps w)
  show "parts_ok (form_error opts e s)"
    by (rule parts_ok_frame[OF assms(2)]) (simp_all add: form_error_keeps w)
qed

lemma emit_error_ok:
  assumes "writers_ok lib s" "parts_ok s"
  shows "writers_ok lib (emit_error opts e s)" "parts_ok (emit_error opts e s)"
proof -
  have w: "\<And>w. w < length (f_writers s) \<Longrightarrow>
           w_part (f_writers (emit_error opts e s) ! w) = w_part (f_writers s ! w)
           \<and> (w_ended (f_writers (emit_error opts e s) ! w) \<longrightarrow> w_ended (f_writers s ! w))"
  proof -
    fix w assume "w < length (f_writers s)"
    from emit_error_writers[OF this, of opts e] obtain d where
      "f_writers (emit_error opts e s) ! w = (f_writers s ! w)\<lparr>w_destroyed := d\<rparr>" by blast
    then show "w_part (f_writers (emit_error opts e s) ! w) = w_part (f_writers s ! w)
           \<and> (w_ended (f_writers (emit_error opts e s) ! w) \<longrightarrow> w_ended (f_writers s ! w))"
      by simp
  qed
  show "writers_ok lib (emit_error opts e s)"
    by (rule writers_ok_frame[OF assms(1)]) (simp_all add: emit_error_keeps w)
  show "parts_ok (emit_error opts e s)"
    by (rule parts_ok_frame[OF assms(2)]) (simp_all add: emit_error_keeps w)
qed

lemma maybeEnd_keeps:
  "f_parts (maybeEnd s) = f_parts s" "f_writers (maybeEnd s) = f_writers s"
  "f_files (maybeEnd s) = f_files s" "f_fields (maybeEnd s) = f_fields s"
  by (simp_all add: maybeEnd_def emit_end_def)

lemma append_other_ok:
  assumes "writers_ok lib s" "parts_ok s" "\<And>fp. X \<noteq> FilePart fp"
  shows "writers_ok lib (s\<lparr>f_parts := f_parts s @ [X]\<rparr>)" "parts_ok (s\<lparr>f_parts := f_parts s @ [X]\<rparr>)"
  using assms unfolding writers_ok_def parts_ok_def
  by (auto simp: nth_append less_Suc_eq)

lemma minor_update_ok:
  assumes "writers_ok lib s" "parts_ok s" "f_parts s' = f_parts s" "f_writers s' = f_writers s"
  shows "writers_ok lib s'" "parts_ok s'"
  using assms unfolding writers_ok_def parts_ok_def by simp_all

lemma rejected_ok:
  assumes "writers_ok lib s" "parts_ok s" "f_parts s1 = f_parts s" "f_writers s1 = f_writers s"
  shows "writers_ok lib ((form_error opts e s1)\<lparr>f_parts := f_parts s1 @ [RejectedPart]\<rparr>)"
    and "parts_ok ((form_error opts e s1)\<lparr>f_parts := f_parts s1 @ [RejectedPart]\<rparr>)"
proof -
  have ok1: "writers_ok lib s1" "parts_ok s1"
    using minor_update_ok[OF assms] by simp_all
  have eq: "(form_error opts e s1)\<lparr>f_parts := f_parts s1 @ [RejectedPart]\<rparr>
      = (form_error opts e s1)\<lparr>f_parts := f_parts (form_error opts e s1) @ [RejectedPart]\<rparr>"
    by (simp add: form_error_keeps)
  show "writers_ok lib ((form_error opts e s1)\<lparr>f_parts := f_parts s1 @ [RejectedPart]\<rparr>)"
    unfolding eq by (rule append_other_ok(1)[OF form_error_ok[OF ok1]]) simp
  show "parts_ok ((form_error opts e s1)\<lparr>f_parts := f_parts s1 @ [RejectedPart]\<rparr>)"
    unfolding eq by (rule append_other_ok(2)[OF form_error_ok[OF ok1]]) simp
qed

lemma accepted_ok:
  assumes "writers_ok lib s" "parts_ok s"
    and "w_part nw = length (f_parts s)" "\<not> w_ended nw" "fp_writer nfp = length (f_writers s)"
  shows "writers_ok lib (s\<lparr>f_flushing := fl, f_filename := fnm,
            f_writers := f_writers s @ [nw], f_writer := fw,
            f_parts := f_parts s @ [FilePart nfp]\<rparr>)"
    and "parts_ok (s\<lparr>f_flushing := fl, f_filename := fnm,
            f_writers := f_writers s @ [nw], f_writer := fw,
            f_parts := f_parts s @ [FilePart nfp]\<rparr>)"
  using assms unfolding writers_ok_def parts_ok_def
  by (auto simp: nth_append less_Suc_eq)

lemma handlePart_ok:
  assumes "writers_ok lib s" "parts_ok s"
  shows "writers_ok lib (handlePart lib opts part uuid s) \<and> parts_ok (handlePart lib opts part uuid s)"
proof (cases "part_filename part = None \<or> part_filename part = Some []")
  case True
  then have "handlePart lib opts part uuid s = s\<lparr>f_parts := f_parts s @
             [FieldPart \<lparr>fd_name = part_name part, fd_value = [], fd_pending = [],
                         fd_ended = False\<rparr>]\<rparr>"
    by (auto simp: handlePart_def)
  then show ?thesis using append_other_ok[OF assms] by simp
next
  case False
  let ?file = "named_file lib opts part uuid"
  let ?ext = "path_extname lib (the (part_filename part))"
  let ?s1 = "s\<lparr>f_flushing := f_flushing s + 1, f_filename := Some (uf_name ?file)\<rparr>"
  let ?nw = "provider_upload (opt_container opts) (uf_name (with_acl opts ?file)) (length (f_parts s))"
  let ?nfp = "\<lparr>fp_file = with_acl opts ?file, fp_maxFileSize = effective_maxFileSize opts ?file,
               fp_fileSize = 0, fp_hashed = [], fp_writer = length (f_writers s), fp_ended = False\<rparr>"
  have s1: "f_parts ?s1 = f_parts s" "f_writers ?s1 = f_writers s" by simp_all
  have hp: "handlePart lib opts part uuid s =
      (if forbidden_extname lib opts ?ext
       then (form_error opts (ExtnameNotAllowed ?ext (the (opt_forbidExtnames opts))) ?s1)
              \<lparr>f_parts := f_parts ?s1 @ [RejectedPart]\<rparr>
       else if type_rejected opts ?file
       then (form_error opts (ContentTypeNotAllowed (uf_type ?file) (allowed_types opts ?file)) ?s1)
              \<lparr>f_parts := f_parts ?s1 @ [RejectedPart]\<rparr>
       else s\<lparr>f_flushing := f_flushing s + 1, f_filename := Some (uf_name ?file),
              f_writers := f_writers s @ [?nw], f_writer := Some (length (f_writers s)),
              f_parts := f_parts s @ [FilePart ?nfp]\<rparr>)"
  proof -
    from False obtain filename where "part_filename part = Some filename" "filename \<noteq> []"
      by (cases "part_filename part") auto
    then show ?thesis by (simp add: handlePart_def Let_def)
  qed
  have nw: "w_part ?nw = length (f_parts s)" "\<not> w_ended ?nw" "fp_writer ?nfp = length (f_writers s)"
    by (simp_all add: provider_upload_def)
  show ?thesis
    unfolding hp using rejected_ok[OF assms s1] accepted_ok[OF assms nw]
    by (simp del: form.simps)
qed

lemma map_update_same: "f x = f (xs ! i) \<Longrightarrow> map f (xs[i := x]) = map f xs"
  by (metis list_update_id map_update)

lemma map_eq_nth:
  "map f xs = map f ys \<Longrightarrow> i < length ys \<Longrightarrow> f (xs ! i) = f (ys ! i)"
  by (metis length_map nth_map)

lemma on_form_error_map:
  "map w_part (f_writers (on_form_error opts s)) = map w_part (f_writers s)"
  "map w_ended (f_writers (on_form_error opts s)) = map w_ended (f_writers s)"
  by (auto simp: on_form_error_def Let_def map_update_same split: option.splits)

lemma emit_error_map:
  "map w_part (f_writers (emit_error opts e s)) = map w_part (f_writers s)"
  "map w_ended (f_writers (emit_error opts e s)) = map w_ended (f_writers s)"
  by (simp_all add: emit_error_def Let_def on_form_error_map)

lemma form_error_map:
  "map w_part (f_writers (form_error opts e s)) = map w_part (f_writers s)"
  "map w_ended (f_writers (form_error opts e s)) = map w_ended (f_writers s)"
  by (simp_all add: form_error_def emit_error_map)

lemma replace_file_part_ok:
  assumes ok: "writers_ok lib s" "parts_ok s"
    and p: "p < length (f_parts s)" "f_parts s ! p = FilePart fp"
    and parts': "f_parts s' = (f_parts s)[p := FilePart fp']" "fp_writer fp' = fp_writer fp"
    and wpart: "map w_part (f_writers s') = map w_part (f_writers s)"
    and ended: "\<And>w. w < length (f_writers s) \<Longrightarrow> w \<noteq> fp_writer fp \<Longrightarrow>
                  w_ended (f_writers s' ! w) \<Longrightarrow> w_ended (f_writers s ! w)"
    and own: "w_ended (f_writers s' ! fp_writer fp) \<Longrightarrow> digests_final lib fp'"
  shows "writers_ok lib s' \<and> parts_ok s'"
proof
  have len: "length (f_writers s') = length (f_writers s)"
    using wpart by (metis length_map)
  have wp: "\<And>w. w < length (f_writers s) \<Longrightarrow> w_part (f_writers s' ! w) = w_part (f_writers s ! w)"
    using wpart map_eq_nth by blast
  have own_w: "fp_writer fp < length (f_writers s)" "w_part (f_writers s ! fp_writer fp) = p"
    using ok(2) p unfolding parts_ok_def by auto
  show "writers_ok lib s'"
    unfolding writers_ok_def
  proof (intro allI impI)
    fix w assume "w < length (f_writers s')"
    then have w: "w < length (f_writers s)" using len by simp
    from ok(1) w obtain fq where q: "w_part (f_writers s ! w) < length (f_parts s)"
      "f_parts s ! w_part (f_writers s ! w) = FilePart fq" "fp_writer fq = w"
      "w_ended (f_writers s ! w) \<longrightarrow> digests_final lib fq"
      unfolding writers_ok_def by blast
    show "w_part (f_writers s' ! w) < length (f_parts s') \<and>
          (\<exists>fp. f_parts s' ! w_part (f_writers s' ! w) = FilePart fp \<and> fp_writer fp = w \<and>
                (w_ended (f_writers s' ! w) \<longrightarrow> digests_final lib fp))"
    proof (cases "w_part (f_writers s ! w) = p")
      case True
      with q p have "w = fp_writer fp" by simp
      with True p parts' own wp[OF w] show ?thesis by auto
    next
      case False
      then have "w \<noteq> fp_writer fp" using own_w by auto
      with False q parts' wp[OF w] ended[OF w] show ?thesis by auto
    qed
  qed
  show "parts_ok s'"
    unfolding parts_ok_def
  proof (intro allI impI)
    fix q fq assume q: "q < length (f_parts s')" "f_parts s' ! q = FilePart fq"
    show "fp_writer fq < length (f_writers s') \<and> w_part (f_writers s' ! fp_writer fq) = q"
    proof (cases "q = p")
      case True
      with q parts' p have "fq = fp'" by simp
      with True parts' own_w len wp show ?thesis by simp
    next
      case False
      with q parts' have "q < length (f_parts s)" "f_parts s ! q = FilePart fq" by simp_all
      with ok(2) have "fp_writer fq < length (f_writers s)" "w_part (f_writers s ! fp_writer fq) = q"
        unfolding parts_ok_def by auto
      with len wp show ?thesis by simp
    qed
  qed
qed

lemma replace_field_part_ok:
  assumes ok: "writers_ok lib s" "parts_ok s"
    and p: "p < length (f_parts s)" "f_parts s ! p = FieldPart fd"
    and parts': "f_parts s' = (f_parts s)[p := FieldPart fd']"
    and ws: "f_writers s' = f_writers s"
  shows "writers_ok lib s' \<and> parts_ok s'"
proof
  show "writers_ok lib s'"
    unfolding writers_ok_def
  proof (intro allI impI)
    fix w assume "w < length (f_writers s')"
    then have w: "w < length (f_writers s)" using ws by simp
    from ok(1) w obtain fq where q: "w_part (f_writers s ! w) < length (f_parts s)"
      "f_parts s ! w_part (f_writers s ! w) = FilePart fq" "fp_writer fq = w"
      "w_ended (f_writers s ! w) \<longrightarrow> digests_final lib fq"
      unfolding writers_ok_def by blast
    then have "w_part (f_writers s ! w) \<noteq> p" using p by auto
    with q parts' ws show "w_part (f_writers s' ! w) < length (f_parts s') \<and>
          (\<exists>fp. f_parts s' ! w_part (f_writers s' ! w) = FilePart fp \<and> fp_writer fp = w \<and>
                (w_ended (f_writers s' ! w) \<longrightarrow> digests_final lib fp))"
      by auto
  qed
  show "parts_ok s'"
    unfolding parts_ok_def
  proof (intro allI impI)
    fix q fq assume q: "q < length (f_parts s')" "f_parts s' ! q = FilePart fq"
    then have "q \<noteq> p" using parts' p by auto
    with q parts' have "q < length (f_parts s)" "f_parts s ! q = FilePart fq" by simp_all
    with ok(2) ws show "fp_writer fq < length (f_writers s') \<and> w_part (f_writers s' ! fp_writer fq) = q"
      unfolding parts_ok_def by auto
  qed
qed

lemma on_part_data_ok:
  assumes ok: "writers_ok lib s" "parts_ok s"
    and p: "p < length (f_parts s)" "part_open (f_parts s ! p)"
  shows "writers_ok lib (on_part_data lib opts p b s) \<and> parts_ok (on_part_data lib opts p b s)"
proof (cases "f_parts s ! p")
  case (FieldPart fd)
  let ?s1 = "s\<lparr>f_fieldsSize := f_fieldsSize s + length b\<rparr>"
  have ok1: "writers_ok lib ?s1" "parts_ok ?s1"
    using minor_update_ok[OF ok, of ?s1] by simp_all
  show ?thesis
  proof (cases "f_fieldsSize ?s1 > opt_maxFieldsSize opts")
    case True
    then have "on_part_data lib opts p b s = form_error opts (MaxFieldsSizeExceeded (f_fieldsSize ?s1)) ?s1"
      using FieldPart by (simp add: on_part_data_def Let_def)
    then show ?thesis using form_error_ok[OF ok1] by simp
  next
    case False
    obtain decoded pending where dw: "decoder_write lib (fd_pending fd) b = (decoded, pending)"
      by (cases "decoder_write lib (fd_pending fd) b")
    let ?s' = "?s1\<lparr>f_parts := (f_parts ?s1)[p := FieldPart (fd\<lparr>fd_value := fd_value fd @ decoded,
                                                 fd_pending := pending\<rparr>)]\<rparr>"
    have eq: "on_part_data lib opts p b s = ?s'"
      using FieldPart False dw by (simp add: on_part_data_def Let_def)
    show ?thesis unfolding eq
      by (rule replace_field_part_ok[OF ok p(1) FieldPart]) simp_all
  qed
next
  case (FilePart fp)
  with p have open_fp: "\<not> fp_ended fp" by simp
  from ok(2) p FilePart have w0: "fp_writer fp < length (f_writers s)"
    unfolding parts_ok_def by auto
  let ?R = "on_part_data lib opts p b s"
  have parts: "\<exists>fp'. f_parts ?R = (f_parts s)[p := FilePart fp'] \<and> fp_writer fp' = fp_writer fp"
    using FilePart by (auto simp: on_part_data_def Let_def form_error_keeps)
  have wpart: "map w_part (f_writers ?R) = map w_part (f_writers s)"
    using FilePart by (auto simp: on_part_data_def Let_def form_error_map map_update_same)
  have wended: "map w_ended (f_writers ?R) = map w_ended (f_writers s)"
    using FilePart by (auto simp: on_part_data_def Let_def form_error_map map_update_same)
  from parts obtain fp' where fp': "f_parts ?R = (f_parts s)[p := FilePart fp']"
    "fp_writer fp' = fp_writer fp" by blast
  have not_ended: "\<not> w_ended (f_writers s ! fp_writer fp)"
  proof
    assume "w_ended (f_writers s ! fp_writer fp)"
    with ok(1) w0 obtain fq where "f_parts s ! w_part (f_writers s ! fp_writer fp) = FilePart fq"
      "digests_final lib fq" unfolding writers_ok_def by blast
    moreover from ok(2) p FilePart have "w_part (f_writers s ! fp_writer fp) = p"
      unfolding parts_ok_def by auto
    ultimately show False using FilePart open_fp by (simp add: digests_final_def)
  qed
  show ?thesis
  proof (rule replace_file_part_ok[OF ok p(1) FilePart fp' wpart])
    fix w assume "w < length (f_writers s)" "w_ended (f_writers ?R ! w)"
    then show "w_ended (f_writers s ! w)" using map_eq_nth[OF wended] by blast
  next
    assume "w_ended (f_writers ?R ! fp_writer fp)"
    then have "w_ended (f_writers s ! fp_writer fp)" using map_eq_nth[OF wended w0] by simp
    with not_ended show "digests_final lib fp'" by simp
  qed
next
  case RejectedPart
  then show ?thesis using ok by (simp add: on_part_data_def)
qed


lemma on_part_end_ok:
  assumes ok: "writers_ok lib s" "parts_ok s"
    and p: "p < length (f_parts s)"
  shows "writers_ok lib (on_part_end lib p s) \<and> parts_ok (on_part_end lib p s)"
proof (cases "f_parts s ! p")
  case (FieldPart fd)
  show ?thesis
  proof (cases "push_value (fd_name fd) (fd_value fd) (f_fields s)")
    case None
    then have eq: "on_part_end lib p s = s\<lparr>f_thrown := True\<rparr>"
      using FieldPart by (simp add: on_part_end_def)
    show ?thesis unfolding eq using minor_update_ok[OF ok, of "s\<lparr>f_thrown := True\<rparr>"] by simp
  next
    case (Some pushed)
    then have eq: "on_part_end lib p s = s\<lparr>f_fields := pushed,
            f_parts := (f_parts s)[p := FieldPart (fd\<lparr>fd_ended := True\<rparr>)]\<rparr>"
      using FieldPart by (simp add: on_part_end_def)
    show ?thesis unfolding eq
      by (rule replace_field_part_ok[OF ok p FieldPart]) simp_all
  qed
next
  case (FilePart fp)
  let ?fp' = "fp\<lparr>fp_ended := True,
                fp_file := (fp_file fp)\<lparr>uf_md5 := Some (md5_hex lib (fp_hashed fp)),
                                        uf_sha256 := Some (sha256_hex lib (fp_hashed fp))\<rparr>\<rparr>"
  let ?w = "fp_writer fp"
  let ?s' = "s\<lparr>f_writers := (f_writers s)[?w := (f_writers s ! ?w)\<lparr>w_ended := True\<rparr>],
               f_parts := (f_parts s)[p := FilePart ?fp']\<rparr>"
  have eq: "on_part_end lib p s = ?s'"
    using FilePart by (simp add: on_part_end_def Let_def)
  show ?thesis unfolding eq
  proof (rule replace_file_part_ok[OF ok p FilePart, where fp'="?fp'"])
    show "f_parts ?s' = (f_parts s)[p := FilePart ?fp']" by simp
    show "fp_writer ?fp' = fp_writer fp" by simp
    show "map w_part (f_writers ?s') = map w_part (f_writers s)"
      by (simp add: map_update_same)
    show "digests_final lib ?fp'" by (simp add: digests_final_def)
  next
    fix w assume "w < length (f_writers s)" "w \<noteq> fp_writer fp" "w_ended (f_writers ?s' ! w)"
    then show "w_ended (f_writers s ! w)" by simp
  qed
next
  case RejectedPart
  then show ?thesis using ok by (simp add: on_part_end_def)
qed


lemma on_writer_error_ok:
  assumes ok: "writers_ok lib s" "parts_ok s"
  shows "writers_ok lib (on_writer_error opts w e s) \<and> parts_ok (on_writer_error opts w e s)"
proof -
  let ?s1 = "s\<lparr>f_writers := (f_writers s)[w := (f_writers s ! w)\<lparr>w_done := True, w_destroyed := True\<rparr>]\<rparr>"
  have m: "map w_part (f_writers ?s1) = map w_part (f_writers s)"
    "map w_ended (f_writers ?s1) = map w_ended (f_writers s)"
    by (simp_all add: map_update_same)
  have "writers_ok lib ?s1"
    by (rule writers_ok_frame[OF ok(1)]) (use map_eq_nth[OF m(1)] map_eq_nth[OF m(2)] in auto)
  moreover have "parts_ok ?s1"
    by (rule parts_ok_frame[OF ok(2)]) (use map_eq_nth[OF m(1)] in auto)
  ultimately show ?thesis unfolding on_writer_error_def using emit_error_ok by blast
qed


lemma on_writer_finish_eq:
  assumes ok: "writers_ok lib s" and w: "w < length (f_writers s)"
  shows "\<exists>fp. f_parts s ! w_part (f_writers s ! w) = FilePart fp \<and> fp_writer fp = w
      \<and> (w_ended (f_writers s ! w) \<longrightarrow> digests_final lib fp)
      \<and> on_writer_finish w s =
          (let s1 = s\<lparr>f_writers := (f_writers s)[w := (f_writers s ! w)\<lparr>w_done := True\<rparr>],
                      f_flushing := f_flushing s - 1,
                      f_parts := (f_parts s)[w_part (f_writers s ! w) :=
                         FilePart (fp\<lparr>fp_file := (fp_file fp)\<lparr>uf_providerResponse := None\<rparr>\<rparr>)]\<rparr>
           in case push_value (uf_field (fp_file fp)) (w_part (f_writers s ! w)) (f_files s) of
                None \<Rightarrow> s1\<lparr>f_thrown := True\<rparr>
              | Some pushed \<Rightarrow> maybeEnd (s1\<lparr>f_files := pushed\<rparr>))"
proof -
  from ok w obtain fp where fp: "f_parts s ! w_part (f_writers s ! w) = FilePart fp"
    "fp_writer fp = w" "w_ended (f_writers s ! w) \<longrightarrow> digests_final lib fp"
    unfolding writers_ok_def by blast
  then show ?thesis
    by (intro exI[of _ fp]) (simp add: on_writer_finish_def endFunc_def Let_def)
qed

lemma on_writer_finish_ok:
  assumes ok: "writers_ok lib s" "parts_ok s" and w: "w < length (f_writers s)"
  shows "writers_ok lib (on_writer_finish w s) \<and> parts_ok (on_writer_finish w s)"
proof -
  let ?p = "w_part (f_writers s ! w)"
  from on_writer_finish_eq[OF ok(1) w] obtain fp where fp:
    "f_parts s ! ?p = FilePart fp" "fp_writer fp = w"
    "w_ended (f_writers s ! w) \<longrightarrow> digests_final lib fp"
    and eq: "on_writer_finish w s =
          (let s1 = s\<lparr>f_writers := (f_writers s)[w := (f_writers s ! w)\<lparr>w_done := True\<rparr>],
                      f_flushing := f_flushing s - 1,
                      f_parts := (f_parts s)[?p :=
                         FilePart (fp\<lparr>fp_file := (fp_file fp)\<lparr>uf_providerResponse := None\<rparr>\<rparr>)]\<rparr>
           in case push_value (uf_field (fp_file fp)) ?p (f_files s) of
                None \<Rightarrow> s1\<lparr>f_thrown := True\<rparr>
              | Some pushed \<Rightarrow> maybeEnd (s1\<lparr>f_files := pushed\<rparr>))"
    by blast
  let ?fp' = "fp\<lparr>fp_file := (fp_file fp)\<lparr>uf_providerResponse := None\<rparr>\<rparr>"
  let ?s' = "s\<lparr>f_writers := (f_writers s)[w := (f_writers s ! w)\<lparr>w_done := True\<rparr>],
                      f_flushing := f_flushing s - 1,
                      f_parts := (f_parts s)[?p := FilePart ?fp']\<rparr>"
  have p: "?p < length (f_parts s)" using ok(1) w unfolding writers_ok_def by blast
  have s': "writers_ok lib ?s' \<and> parts_ok ?s'"
  proof (rule replace_file_part_ok[OF ok p fp(1), where fp'="?fp'"])
    show "f_parts ?s' = (f_parts s)[?p := FilePart ?fp']" by simp
    show "fp_writer ?fp' = fp_writer fp" by simp
    show "map w_part (f_writers ?s') = map w_part (f_writers s)" by (simp add: map_update_same)
  next
    fix v assume "v < length (f_writers s)" "v \<noteq> fp_writer fp" "w_ended (f_writers ?s' ! v)"
    then show "w_ended (f_writers s ! v)" using fp(2) by simp
  next
    assume "w_ended (f_writers ?s' ! fp_writer fp)"
    then have "w_ended (f_writers s ! w)" using fp(2) w by simp
    with fp(3) show "digests_final lib ?fp'" by (simp add: digests_final_def)
  qed
  show ?thesis
  proof (cases "push_value (uf_field (fp_file fp)) ?p (f_files s)")
    case None
    then have "on_writer_finish w s = ?s'\<lparr>f_thrown := True\<rparr>"
      unfolding eq by (simp add: Let_def)
    then show ?thesis using s' minor_update_ok[of lib ?s' "?s'\<lparr>f_thrown := True\<rparr>"] by simp
  next
    case (Some pushed)
    then have "on_writer_finish w s = maybeEnd (?s'\<lparr>f_files := pushed\<rparr>)"
      unfolding eq by (simp add: Let_def)
    then show ?thesis
      using s' minor_update_ok[of lib ?s' "maybeEnd (?s'\<lparr>f_files := pushed\<rparr>)"]
      by (simp add: maybeEnd_keeps)
  qed
qed


lemma enabled_part:
  assumes "current_open s" "Suc p = length (f_parts s)"
  shows "p < length (f_parts s)" "part_open (f_parts s ! p)"
proof -
  show "p < length (f_parts s)" using assms(2) by simp
  have "p = length (f_parts s) - 1" using assms(2) by simp
  then have "last (f_parts s) = f_parts s ! p"
    using assms(1) by (simp add: current_open_def last_conv_nth)
  then show "part_open (f_parts s ! p)" using assms(1) by (simp add: current_open_def)
qed

lemma step_ok:
  assumes "writers_ok lib s" "parts_ok s" "enabled s ev"
  shows "writers_ok lib (step lib opts s ev) \<and> parts_ok (step lib opts s ev)"
proof (cases ev)
  case (Part part uuid)
  then show ?thesis using handlePart_ok[OF assms(1,2)] by simp
next
  case (PartData p b)
  then show ?thesis using on_part_data_ok[OF assms(1,2)] enabled_part assms(3) by simp
next
  case (PartEnd p)
  then show ?thesis using on_part_end_ok[OF assms(1,2)] enabled_part assms(3) by simp
next
  case (WriterFinish w)
  then show ?thesis using on_writer_finish_ok[OF assms(1,2)] assms(3) by simp
next
  case (WriterError w e)
  then show ?thesis using on_writer_error_ok[OF assms(1,2)] by simp
next
  case (WriterClose w)
  then show ?thesis using assms by simp
next
  case RequestEnd
  then show ?thesis
    using minor_update_ok[OF assms(1,2), of "maybeEnd (s\<lparr>f_ended := True\<rparr>)"]
    by (simp add: maybeEnd_keeps)
qed

lemma reachable_ok:
  "reachable lib opts s \<Longrightarrow> writers_ok lib s \<and> parts_ok s"
proof (induction rule: reachable.induct)
  case reach_start
  show ?case by (simp add: writers_ok_def parts_ok_def new_form_def)
next
  case (reach_step s ev)
  then show ?case using step_ok by blast
qed


lemma files_change_only_on_finish:
  assumes "f_files (step lib opts s ev) \<noteq> f_files s"
  shows "\<exists>w. ev = WriterFinish w"
proof (cases ev)
  case (Part part uuid)
  then have "f_files (step lib opts s ev) = f_files s"
    by (simp add: handlePart_def Let_def form_error_keeps)
  with assms show ?thesis by simp
next
  case (PartData p b)
  then have "f_files (step lib opts s ev) = f_files s"
    by (auto simp: on_part_data_def Let_def form_error_keeps split: part_closure.splits prod.splits)
  with assms show ?thesis by simp
next
  case (PartEnd p)
  then have "f_files (step lib opts s ev) = f_files s"
    by (auto simp: on_part_end_def Let_def split: part_closure.splits option.splits)
  with assms show ?thesis by simp
next
  case (WriterFinish w)
  then show ?thesis by simp
next
  case (WriterError w e)
  then have "f_files (step lib opts s ev) = f_files s"
    by (simp add: on_writer_error_def emit_error_keeps)
  with assms show ?thesis by simp
next
  case (WriterClose w)
  with assms show ?thesis by simp
next
  case RequestEnd
  then have "f_files (step lib opts s ev) = f_files s"
    by (simp add: maybeEnd_keeps)
  with assms show ?thesis by simp
qed


lemma possible_reachable:
  "reachable lib opts s \<Longrightarrow> possible lib opts s evs \<Longrightarrow> reachable lib opts (run lib opts s evs)"
proof (induction evs arbitrary: s)
  case Nil
  then show ?case by simp
next
  case (Cons ev evs)
  then show ?case using reachable.reach_step by simp
qed

subsection \<open>The bytes that are hashed\<close>

lemma possible_append:
  "possible lib opts s (xs @ ys)
     \<longleftrightarrow> possible lib opts s xs \<and> possible lib opts (run lib opts s xs) ys"
  by (induction xs arbitrary: s) auto

text \<open>The states that an upload can reach are the results of its possible runs.\<close>

lemma reachable_run:
  "reachable lib opts s \<Longrightarrow> \<exists>evs. possible lib opts new_form evs \<and> s = run lib opts new_form evs"
proof (induction rule: reachable.induct)
  case reach_start
  have "possible lib opts new_form [] \<and> new_form = run lib opts new_form []" by simp
  then show ?case by blast
next
  case (reach_step s ev)
  then obtain evs where evs: "possible lib opts new_form evs" "s = run lib opts new_form evs"
    by blast
  with reach_step(2) have "possible lib opts new_form (evs @ [ev])
      \<and> step lib opts s ev = run lib opts new_form (evs @ [ev])"
    by (simp add: possible_append run_append)
  then show ?case by blast
qed

lemma received_append: "received p (xs @ ys) = received p xs @ received p ys"
  by (simp add: received_def)

text \<open>
  Every event leaves the bytes hashed for a part as they are, but for a buffer of
  that part, which is appended; a new part starts with none.
\<close>

lemma step_parts_length:
  "length (f_parts (step lib opts s ev))
     = (case ev of Part part uuid \<Rightarrow> Suc (length (f_parts s)) | _ \<Rightarrow> length (f_parts s))"
proof (cases ev)
  case (Part part uuid)
  then show ?thesis by (simp add: handlePart_def Let_def form_error_keeps)
next
  case (PartData q b)
  then show ?thesis
    by (auto simp: on_part_data_def Let_def form_error_keeps
        split: part_closure.splits prod.splits)
next
  case (PartEnd q)
  then show ?thesis
    by (auto simp: on_part_end_def Let_def split: part_closure.splits option.splits)
next
  case (WriterFinish w)
  then show ?thesis
    by (auto simp: on_writer_finish_def endFunc_def Let_def maybeEnd_keeps
        split: part_closure.splits option.splits)
next
  case (WriterError w e)
  then show ?thesis by (simp add: on_writer_error_def emit_error_keeps)
next
  case (WriterClose w)
  then show ?thesis by simp
next
  case RequestEnd
  then show ?thesis by (simp add: maybeEnd_keeps)
qed

lemma new_part_hashed:
  "hashed (handlePart lib opts part uuid s) (length (f_parts s)) = None
   \<or> hashed (handlePart lib opts part uuid s) (length (f_parts s)) = Some []"
  by (simp add: hashed_def handlePart_def Let_def form_error_keeps)

lemma step_hashed:
  assumes "p < length (f_parts s)" and "enabled s ev"
  shows "hashed (step lib opts s ev) p = map_option (\<lambda>h. h @ buffer_for p ev) (hashed s p)"
proof (cases ev)
  case (Part part uuid)
  then show ?thesis using assms(1)
    by (simp add: hashed_def handlePart_def Let_def form_error_keeps nth_append
        split: part_closure.splits)
next
  case (PartData q b)
  with assms(2) have q: "q < length (f_parts s)" by auto
  show ?thesis
  proof (cases "q = p")
    case True
    then show ?thesis using PartData assms(1)
      by (auto simp: hashed_def on_part_data_def Let_def form_error_keeps
          split: part_closure.splits prod.splits)
  next
    case False
    then show ?thesis using PartData assms(1) q
      by (auto simp: hashed_def on_part_data_def Let_def form_error_keeps
          split: part_closure.splits prod.splits)
  qed
next
  case (PartEnd q)
  with assms(2) have q: "q < length (f_parts s)" by auto
  show ?thesis
  proof (cases "q = p")
    case True
    then show ?thesis using PartEnd assms(1)
      by (auto simp: hashed_def on_part_end_def Let_def
          split: part_closure.splits option.splits)
  next
    case False
    then show ?thesis using PartEnd assms(1) q
      by (auto simp: hashed_def on_part_end_def Let_def
          split: part_closure.splits option.splits)
  qed
next
  case (WriterFinish w)
  show ?thesis
  proof (cases "w_part (f_writers s ! w) = p")
    case True
    then show ?thesis using WriterFinish assms(1)
      by (auto simp: hashed_def on_writer_finish_def endFunc_def Let_def maybeEnd_keeps
          split: part_closure.splits option.splits)
  next
    case False
    then show ?thesis using WriterFinish assms(1)
      by (auto simp: hashed_def on_writer_finish_def endFunc_def Let_def maybeEnd_keeps
          split: part_closure.splits option.splits)
  qed
next
  case (WriterError w e)
  then show ?thesis
    by (simp add: hashed_def on_writer_error_def emit_error_keeps option.map_ident)
next
  case (WriterClose w)
  then show ?thesis by (simp add: option.map_ident)
next
  case RequestEnd
  then show ?thesis by (simp add: hashed_def maybeEnd_keeps option.map_ident)
qed

text \<open>
  In every possible run, the bytes hashed for a file part are the concatenation of
  the buffers that the part received.
\<close>

lemma hashed_is_received:
  "possible lib opts new_form evs \<Longrightarrow>
   (\<forall>p. (p < length (f_parts (run lib opts new_form evs)) \<longrightarrow>
            hashed (run lib opts new_form evs) p = None
            \<or> hashed (run lib opts new_form evs) p = Some (received p evs))
       \<and> (length (f_parts (run lib opts new_form evs)) \<le> p \<longrightarrow> received p evs = []))"
proof (induction evs rule: rev_induct)
  case Nil
  show ?case by (simp add: received_def new_form_def)
next
  case (snoc ev evs)
  let ?s = "run lib opts new_form evs"
  from snoc.prems have pos: "possible lib opts new_form evs" and en: "enabled ?s ev"
    by (simp_all add: possible_append)
  note IH = snoc.IH[OF pos]
  have run_eq: "run lib opts new_form (evs @ [ev]) = step lib opts ?s ev"
    by (simp add: run_append)
  show ?case
  proof (intro allI conjI impI)
    fix p
    assume p: "p < length (f_parts (run lib opts new_form (evs @ [ev])))"
    show "hashed (run lib opts new_form (evs @ [ev])) p = None
          \<or> hashed (run lib opts new_form (evs @ [ev])) p = Some (received p (evs @ [ev]))"
    proof (cases "p < length (f_parts ?s)")
      case True
      from IH True have "hashed ?s p = None \<or> hashed ?s p = Some (received p evs)" by blast
      then show ?thesis
        unfolding run_eq step_hashed[OF True en]
        by (auto simp: received_append received_def)
    next
      case False
      with p obtain part uuid where ev: "ev = Part part uuid" and pl: "p = length (f_parts ?s)"
        unfolding run_eq step_parts_length by (cases ev) auto
      from IH pl have "received p evs = []" by simp
      then have "received p (evs @ [ev]) = []" using ev by (simp add: received_append received_def)
      moreover have "run lib opts new_form (evs @ [ev]) = handlePart lib opts part uuid ?s"
        using run_eq ev by simp
      ultimately show ?thesis
        using new_part_hashed[of lib opts part uuid ?s] pl by auto
    qed
  next
    fix p
    assume p: "length (f_parts (run lib opts new_form (evs @ [ev]))) \<le> p"
    then have le: "length (f_parts ?s) \<le> p"
      unfolding run_eq step_parts_length by (cases ev) auto
    with IH have r: "received p evs = []" by blast
    have "buffer_for p ev = []"
    proof (cases ev)
      case (PartData q b)
      with en have "q < length (f_parts ?s)" by auto
      with le PartData show ?thesis by simp
    qed simp_all
    with r show "received p (evs @ [ev]) = []" by (simp add: received_append received_def)
  qed
qed

lemma file_part_hashed_received:
  assumes "possible lib opts new_form evs"
    and "p < length (f_parts (run lib opts new_form evs))"
    and "f_parts (run lib opts new_form evs) ! p = FilePart fp"
  shows "fp_hashed fp = received p evs"
  using hashed_is_received[OF assms(1)] assms(2,3) by (auto simp: hashed_def)

text \<open>
  C4: in every run of an upload, the list of files of a field changes only when a
  write stream finishes, which is when the filesystem provider emits \<open>success\<close>
  (never at the close of a stream, the end of a part or an error); the file
  appended then is that of the part the stream belongs to, the part has ended, the
  bytes fed to its hashes are all the buffers that the part received, in order,
  and its \<open>md5\<close> and \<open>sha256\<close> are the hex digests of these bytes; the record
  keeps them when \<open>endFunc\<close> stores the provider's response.
\<close>

theorem file_recorded_after_success_only:
  assumes "possible lib opts new_form evs" and "s = run lib opts new_form evs"
    and "enabled s ev"
    and "f_files (step lib opts s ev) \<noteq> f_files s"
  shows "\<exists>w fp. ev = WriterFinish w
      \<and> f_parts s ! w_part (f_writers s ! w) = FilePart fp \<and> fp_writer fp = w
      \<and> push_value (uf_field (fp_file fp)) (w_part (f_writers s ! w)) (f_files s)
          = Some (f_files (step lib opts s ev))
      \<and> fp_ended fp
      \<and> fp_hashed fp = received (w_part (f_writers s ! w)) evs
      \<and> uf_md5 (fp_file fp) = Some (md5_hex lib (received (w_part (f_writers s ! w)) evs))
      \<and> uf_sha256 (fp_file fp) = Some (sha256_hex lib (received (w_part (f_writers s ! w)) evs))
      \<and> f_parts (step lib opts s ev) ! w_part (f_writers s ! w)
          = FilePart (fp\<lparr>fp_file := (fp_file fp)\<lparr>uf_providerResponse := None\<rparr>\<rparr>)"
proof -
  from files_change_only_on_finish[OF assms(4)] obtain w where ev: "ev = WriterFinish w" by blast
  with assms(3) have w: "w < length (f_writers s)" "w_ended (f_writers s ! w)" by simp_all
  have reach: "reachable lib opts s"
    unfolding assms(2) by (rule possible_reachable[OF reachable.reach_start assms(1)])
  from reachable_ok[OF reach] have ok: "writers_ok lib s" by simp
  let ?p = "w_part (f_writers s ! w)"
  have p: "?p < length (f_parts s)" using ok w(1) unfolding writers_ok_def by blast
  from on_writer_finish_eq[OF ok w(1)] w(2) obtain fp where
    fp: "f_parts s ! ?p = FilePart fp" "fp_writer fp = w" "digests_final lib fp"
    and eq: "on_writer_finish w s =
          (let s1 = s\<lparr>f_writers := (f_writers s)[w := (f_writers s ! w)\<lparr>w_done := True\<rparr>],
                      f_flushing := f_flushing s - 1,
                      f_parts := (f_parts s)[?p :=
                         FilePart (fp\<lparr>fp_file := (fp_file fp)\<lparr>uf_providerResponse := None\<rparr>\<rparr>)]\<rparr>
           in case push_value (uf_field (fp_file fp)) ?p (f_files s) of
                None \<Rightarrow> s1\<lparr>f_thrown := True\<rparr>
              | Some pushed \<Rightarrow> maybeEnd (s1\<lparr>f_files := pushed\<rparr>))"
    by blast
  have changed: "f_files (on_writer_finish w s) \<noteq> f_files s"
    using assms(4) ev by simp
  obtain pushed where pushed: "push_value (uf_field (fp_file fp)) ?p (f_files s) = Some pushed"
  proof (cases "push_value (uf_field (fp_file fp)) ?p (f_files s)")
    case None
    then have "f_files (on_writer_finish w s) = f_files s"
      unfolding eq by (simp add: Let_def)
    with changed show ?thesis by simp
  next
    case (Some pushed)
    then show ?thesis using that by blast
  qed
  have files: "f_files (step lib opts s ev) = pushed"
    unfolding ev step.simps eq using pushed by (simp add: Let_def maybeEnd_keeps)
  have parts: "f_parts (step lib opts s ev) ! ?p
      = FilePart (fp\<lparr>fp_file := (fp_file fp)\<lparr>uf_providerResponse := None\<rparr>\<rparr>)"
    unfolding ev step.simps eq using pushed p by (simp add: Let_def maybeEnd_keeps)
  have rec: "fp_hashed fp = received ?p evs"
    using file_part_hashed_received[OF assms(1)] p fp(1) unfolding assms(2) by blast
  from fp(3) rec have dig: "fp_ended fp"
    "uf_md5 (fp_file fp) = Some (md5_hex lib (received ?p evs))"
    "uf_sha256 (fp_file fp) = Some (sha256_hex lib (received ?p evs))"
    by (simp_all add: digests_final_def)
  show ?thesis
    using ev fp(1,2) pushed files dig rec parts by (intro exI[of _ w] exI[of _ fp]) simp
qed

theorem file_recorded_after_success_only_witness:
  "possible example_lib example_options new_form small_upload
   \<and> enabled (run example_lib example_options new_form small_upload) (WriterFinish 0)
   \<and> f_files (step example_lib example_options
                 (run example_lib example_options new_form small_upload) (WriterFinish 0))
       \<noteq> f_files (run example_lib example_options new_form small_upload)
   \<and> f_files (step example_lib example_options
                 (run example_lib example_options new_form small_upload) (WriterFinish 0))
       = [(''image'', [0])]
   \<and> received 0 small_upload = ''0123456789''
   \<and> (\<exists>fp. f_parts (run example_lib example_options new_form small_upload) ! 0 = FilePart fp
          \<and> fp_ended fp \<and> fp_hashed fp = ''0123456789''
          \<and> uf_md5 (fp_file fp) = Some (md5_hex example_lib ''0123456789'')
          \<and> uf_sha256 (fp_file fp) = Some (sha256_hex example_lib ''0123456789''))"
proof -
  let ?s = "run example_lib example_options new_form small_upload"
  have p: "possible example_lib example_options new_form small_upload" by code_simp
  have e: "enabled ?s (WriterFinish 0)" by code_simp
  have c: "f_files (step example_lib example_options ?s (WriterFinish 0)) \<noteq> f_files ?s"
    by code_simp
  have v: "f_files (step example_lib example_options ?s (WriterFinish 0)) = [(''image'', [0])]"
    "w_part (f_writers ?s ! 0) = 0" "received 0 small_upload = ''0123456789''"
    by code_simp+
  from file_recorded_after_success_only[OF p refl e c] obtain fp where
    fp: "f_parts ?s ! 0 = FilePart fp" "fp_ended fp"
        "fp_hashed fp = received 0 small_upload"
        "uf_md5 (fp_file fp) = Some (md5_hex example_lib (received 0 small_upload))"
        "uf_sha256 (fp_file fp) = Some (sha256_hex example_lib (received 0 small_upload))"
    using v(2) by auto
  from fp p e c v show ?thesis by auto
qed

subsection \<open>Errors of an upload\<close>

text \<open>
  When no error is recorded yet, the buffer that takes a file part over its limit
  makes the form record the size error, pass it to the callback and call
  \<open>provider.removeFile\<close> for the file.
\<close>

lemma size_exceeded_reported_and_removed:
  assumes "p < length (f_parts s)" "f_parts s ! p = FilePart fp"
    and "fp_maxFileSize fp \<noteq> 0"
    and "fp_fileSize fp + int (length buffer) > fp_maxFileSize fp"
    and "f_error s = None" "\<not> f_ended s"
    and "f_filename s = Some name" "name \<noteq> []"
  shows "f_error (on_part_data lib opts p buffer s)
           = Some (MaxFileSizeExceeded (fp_fileSize fp + int (length buffer)) (fp_maxFileSize fp))"
    and "f_callbacks (on_part_data lib opts p buffer s)
           = f_callbacks s @ [CbError (MaxFileSizeExceeded (fp_fileSize fp + int (length buffer))
                                          (fp_maxFileSize fp))]"
    and "f_removed (on_part_data lib opts p buffer s) = f_removed s @ [(opt_container opts, name)]"
  using assms
  by (auto simp: on_part_data_def Let_def form_error_def emit_error_def on_form_error_def
      split: option.splits)

text \<open>
  C5 (a file part that exceeds \<open>maxFileSize\<close> fails the upload with the size error,
  and exactly one error is delivered for the whole upload). The listener of the
  writer's \<open>error\<close> event emits \<open>error\<close> on the form directly, not through
  \<open>_error\<close>, so the failure of the write stream is not recorded as the first error:
  when the next buffer exceeds the limit, the callback is invoked a second time.
\<close>

theorem writer_failure_and_size_error_both_reported:
  "possible example_lib example_options new_form failing_upload
   \<and> f_callbacks (run example_lib example_options new_form failing_upload)
       = [CbError (WriterFailed ENOSPC), CbError (MaxFileSizeExceeded 20 15)]"
  by code_simp

end
